theory Spec2Isabelle
  imports Main "HOL-Library.AList" "HOL-Library.Sublist"
begin

section \<open>Capture records (internal/capture/request.go)\<close>

text \<open>
  Go's \<open>http.Header\<close> and the record's header fields are \<open>map[string][]string\<close>. A Go map
  is finite and is iterated in an unspecified order, so it is an association list here: the
  order of the list is one iteration order, and every result below holds for all of them.
\<close>

type_synonym Header = "(string \<times> string list) list"

text \<open>
  The struct \<open>CapturedRequest\<close>. \<open>Proto\<close> and \<open>ClientAddr\<close> are assigned by both handlers
  (handler.go, https.go), so they are fields here. A nil byte slice and an empty one are
  both \<open>[]\<close>. \<open>Timestamp\<close> and \<open>Duration\<close> are clock readings supplied by the environment.
\<close>

record CapturedRequest =
  ID :: string
  Timestamp :: nat
  Method :: string
  URL :: string
  Host :: string
  Path :: string
  Proto :: string
  ClientAddr :: string
  RequestHeaders :: Header
  RequestBody :: string
  StatusCode :: int
  ResponseHeaders :: Header
  ResponseBody :: string
  Duration :: nat
  IsHTTPS :: bool
  IsTunnel :: bool
  ProcessName :: string
  ProcessID :: int

definition NewCapturedRequest :: "nat \<Rightarrow> CapturedRequest" where
  "NewCapturedRequest now =
     \<lparr>ID = [], Timestamp = now, Method = [], URL = [], Host = [], Path = [], Proto = [],
      ClientAddr = [], RequestHeaders = [], RequestBody = [], StatusCode = 0,
      ResponseHeaders = [], ResponseBody = [], Duration = 0, IsHTTPS = False,
      IsTunnel = False, ProcessName = [], ProcessID = 0\<rparr>"

section \<open>The store (internal/capture/store.go)\<close>

text \<open>
  A buffered Go channel of records: its queue, its capacity and whether it was closed.
  Channels live in a heap (a list; a channel reference is an index into it, and
  \<open>make\<close> appends), because the store's subscriber set and the consumer hold the same
  channel.
\<close>

record chan =
  ch_buf :: "CapturedRequest list"
  ch_cap :: nat
  ch_closed :: bool

type_synonym chan_ref = nat

text \<open>
  The struct \<open>Store\<close> without its two mutexes: every method runs as one atomic step.
  \<open>Add\<close> holds \<open>mu\<close> until it returns, so no other method sees the sequence between its
  append and its fan-out, and the fan-out reads the subscriber set and sends under
  \<open>subMu\<close>, which \<open>Subscribe\<close> and \<open>Unsubscribe\<close> take to change the set.
  \<open>subscribers\<close> is the key set of \<open>map[chan *CapturedRequest]struct{}\<close>; its order in the
  list is one order in which the map may be iterated.
\<close>

record Store =
  requests :: "CapturedRequest list"
  maxSize :: int
  subscribers :: "chan_ref list"

record world =
  store :: Store
  heap :: "chan list"

datatype panic =
  SliceBoundsOutOfRange
  | SendOnClosedChannel
  | CloseOfClosedChannel
  | CloseOfNilChannel

definition NewStore :: "int \<Rightarrow> Store" where
  "NewStore n =
     (let m = (if n \<le> 0 then 1000 else n)
      in \<lparr>requests = [], maxSize = m, subscribers = []\<rparr>)"

definition new_world :: "int \<Rightarrow> world" where
  "new_world n = \<lparr>store = NewStore n, heap = []\<rparr>"

text \<open>
  \<open>select { case ch <- req: default: }\<close>: the send happens when the queue has room, the
  default branch is taken when it is full (or the channel is nil, which is how a reference
  outside the heap is read); a send on a closed channel panics.
\<close>

definition trysend :: "chan list \<Rightarrow> chan_ref \<Rightarrow> CapturedRequest \<Rightarrow> panic + chan list" where
  "trysend hp ch req =
     (if ch < length hp then
        (let c = hp ! ch in
         if ch_closed c then Inl SendOnClosedChannel
         else if length (ch_buf c) < ch_cap c
           then Inr (hp[ch := c\<lparr>ch_buf := ch_buf c @ [req]\<rparr>])
           else Inr hp)
      else Inr hp)"

fun notifySubscribers :: "chan_ref list \<Rightarrow> chan list \<Rightarrow> CapturedRequest \<Rightarrow> panic + chan list" where
  "notifySubscribers [] hp req = Inr hp"
| "notifySubscribers (ch # chs) hp req =
     (case trysend hp ch req of
        Inl p \<Rightarrow> Inl p
      | Inr hp' \<Rightarrow> notifySubscribers chs hp' req)"

text \<open>
  \<open>Store.Add\<close>. The slice expression \<open>s.requests[1:]\<close> panics on an empty slice, which is
  reachable only when \<open>maxSize \<le> 0\<close>.
\<close>

definition Add :: "world \<Rightarrow> CapturedRequest \<Rightarrow> panic + world" where
  "Add w req =
     (let s = store w in
      if maxSize s \<le> int (length (requests s)) \<and> requests s = [] then Inl SliceBoundsOutOfRange
      else
        (let kept = (if maxSize s \<le> int (length (requests s)) then tl (requests s) else requests s);
             rs = kept @ [req]
         in case notifySubscribers (subscribers s) (heap w) req of
              Inl p \<Rightarrow> Inl p
            | Inr hp \<Rightarrow> Inr \<lparr>store = s\<lparr>requests := rs\<rparr>, heap = hp\<rparr>))"

definition GetAll :: "world \<Rightarrow> CapturedRequest list" where
  "GetAll w = requests (store w)"

definition GetRecent :: "world \<Rightarrow> int \<Rightarrow> CapturedRequest list" where
  "GetRecent w n =
     (let len = int (length (requests (store w)));
          n' = (if n \<le> 0 \<or> len < n then len else n)
      in drop (nat (len - n')) (requests (store w)))"

definition GetByID :: "world \<Rightarrow> string \<Rightarrow> CapturedRequest option" where
  "GetByID w i = find (\<lambda>req. ID req = i) (requests (store w))"

definition Clear :: "world \<Rightarrow> world" where
  "Clear w = w\<lparr>store := (store w)\<lparr>requests := []\<rparr>\<rparr>"

definition Count :: "world \<Rightarrow> int" where
  "Count w = int (length (requests (store w)))"

definition Subscribe :: "world \<Rightarrow> chan_ref \<times> world" where
  "Subscribe w =
     (let ch = length (heap w);
          hp = heap w @ [\<lparr>ch_buf = [], ch_cap = 100, ch_closed = False\<rparr>]
      in (ch, \<lparr>store = (store w)\<lparr>subscribers := List.insert ch (subscribers (store w))\<rparr>,
               heap = hp\<rparr>))"

definition Unsubscribe :: "world \<Rightarrow> chan_ref \<Rightarrow> panic + world" where
  "Unsubscribe w ch =
     (let s = (store w)\<lparr>subscribers := removeAll ch (subscribers (store w))\<rparr> in
      if \<not> ch < length (heap w) then Inl CloseOfNilChannel
      else if ch_closed (heap w ! ch) then Inl CloseOfClosedChannel
      else Inr \<lparr>store = s, heap = (heap w)[ch := (heap w ! ch)\<lparr>ch_closed := True\<rparr>]\<rparr>)"

text \<open>The receive \<open><-ch\<close> of a consumer that finds a record queued.\<close>

definition chan_recv :: "chan \<Rightarrow> (CapturedRequest \<times> chan) option" where
  "chan_recv c = (case ch_buf c of [] \<Rightarrow> None | x # xs \<Rightarrow> Some (x, c\<lparr>ch_buf := xs\<rparr>))"

text \<open>A sequence of \<open>Add\<close> calls, stopping at the first panic.\<close>

fun add_all :: "world \<Rightarrow> CapturedRequest list \<Rightarrow> panic + world" where
  "add_all w [] = Inr w"
| "add_all w (r # rs) = (case Add w r of Inl p \<Rightarrow> Inl p | Inr w' \<Rightarrow> add_all w' rs)"

text \<open>
  Calls on the store in any interleaving: appends, clears, subscriptions, unsubscriptions
  and receives by the consumer of a channel. The log collects what each consumer received,
  in order. A receive on an empty queue would wait; it is skipped.
\<close>

datatype op =
  OpAdd CapturedRequest
  | OpClear
  | OpSubscribe
  | OpUnsubscribe chan_ref
  | OpRecv chan_ref

type_synonym recv_log = "(chan_ref \<times> CapturedRequest) list"

fun step :: "world \<times> recv_log \<Rightarrow> op \<Rightarrow> panic + world \<times> recv_log" where
  "step (w, lg) (OpAdd r) = (case Add w r of Inl p \<Rightarrow> Inl p | Inr w' \<Rightarrow> Inr (w', lg))"
| "step (w, lg) OpClear = Inr (Clear w, lg)"
| "step (w, lg) OpSubscribe = Inr (snd (Subscribe w), lg)"
| "step (w, lg) (OpUnsubscribe ch) =
     (case Unsubscribe w ch of Inl p \<Rightarrow> Inl p | Inr w' \<Rightarrow> Inr (w', lg))"
| "step (w, lg) (OpRecv ch) =
     (if ch < length (heap w) then
        (case chan_recv (heap w ! ch) of
           None \<Rightarrow> Inr (w, lg)
         | Some (r, c) \<Rightarrow> Inr (w\<lparr>heap := (heap w)[ch := c]\<rparr>, lg @ [(ch, r)]))
      else Inr (w, lg))"

fun exec :: "world \<times> recv_log \<Rightarrow> op list \<Rightarrow> panic + world \<times> recv_log" where
  "exec s [] = Inr s"
| "exec s (x # xs) = (case step s x of Inl p \<Rightarrow> Inl p | Inr s' \<Rightarrow> exec s' xs)"

definition received :: "chan_ref \<Rightarrow> recv_log \<Rightarrow> CapturedRequest list" where
  "received ch lg = map snd (filter (\<lambda>e. fst e = ch) lg)"

fun appended :: "op list \<Rightarrow> CapturedRequest list" where
  "appended [] = []"
| "appended (OpAdd r # xs) = r # appended xs"
| "appended (_ # xs) = appended xs"

text \<open>
  What the methods of the store keep true of a store made by \<open>NewStore\<close>: a positive
  capacity, no more records than the capacity, and subscribers that are distinct,
  allocated and open channels.
\<close>

definition store_inv :: "world \<Rightarrow> bool" where
  "store_inv w =
     (0 < maxSize (store w) \<and> int (length (requests (store w))) \<le> maxSize (store w) \<and>
      distinct (subscribers (store w)) \<and>
      list_all (\<lambda>ch. ch < length (heap w) \<and> \<not> ch_closed (heap w ! ch)) (subscribers (store w)))"

text \<open>What one fan-out does to the channel at index \<open>i\<close> of the heap.\<close>

definition deliver :: "chan_ref list \<Rightarrow> CapturedRequest \<Rightarrow> chan \<Rightarrow> nat \<Rightarrow> chan" where
  "deliver chs r c i =
     (if i \<in> set chs \<and> length (ch_buf c) < ch_cap c then c\<lparr>ch_buf := ch_buf c @ [r]\<rparr> else c)"

text \<open>Sample data for the concrete instances below.\<close>

definition sample_record :: "nat \<Rightarrow> CapturedRequest" where
  "sample_record i = (NewCapturedRequest 0)\<lparr>ID := replicate i (CHR ''x'')\<rparr>"

definition demo_world :: world where
  "demo_world = snd (Subscribe (new_world 10))"

section \<open>Header names (net/textproto, as used by handler.go)\<close>

text \<open>
  The header functions of handler.go call \<open>http.Header.Add\<close> and \<open>http.Header.Del\<close>, which
  key the map by \<open>textproto.CanonicalMIMEHeaderKey\<close>. That function belongs to Go's standard
  library, not to this repository; it is written out here, byte for byte as the library
  computes it, because what "the same header" means depends on it. Bytes are \<open>char\<close>s and
  the classes are ranges of their codes.
\<close>

definition is_upper :: "char \<Rightarrow> bool" where
  "is_upper c = (65 \<le> (of_char c :: nat) \<and> (of_char c :: nat) \<le> 90)"

definition is_lower :: "char \<Rightarrow> bool" where
  "is_lower c = (97 \<le> (of_char c :: nat) \<and> (of_char c :: nat) \<le> 122)"

definition is_digit :: "char \<Rightarrow> bool" where
  "is_digit c = (48 \<le> (of_char c :: nat) \<and> (of_char c :: nat) \<le> 57)"

text \<open>
  ASCII lower case. HTTP header names are compared without regard to case, so two names
  denote the same header when their lower-case forms are equal.
\<close>

definition to_lower :: "char \<Rightarrow> char" where
  "to_lower c = (if is_upper c then char_of (of_char c + 32 :: nat) else c)"

text \<open>
  The token bytes of RFC 7230: letters, digits and the fifteen punctuation bytes
  (given by their codes) that a header name may contain.
\<close>

definition validHeaderFieldByte :: "char \<Rightarrow> bool" where
  "validHeaderFieldByte c =
     (is_upper c \<or> is_lower c \<or> is_digit c \<or>
      (of_char c :: nat) \<in> set [33, 35, 36, 37, 38, 39, 42, 43, 45, 46, 94, 95, 96, 124, 126])"

text \<open>
  The rewriting loop of the library's \<open>canonicalMIMEHeaderKey\<close>: upper case for the first
  letter and for each letter after a dash, lower case elsewhere (\<open>toLower\<close> is 32).
\<close>

fun canonicalize :: "bool \<Rightarrow> string \<Rightarrow> string" where
  "canonicalize upper [] = []"
| "canonicalize upper (c # cs) =
     (let c' = (if upper \<and> is_lower c then char_of (of_char c - 32 :: nat)
                else if \<not> upper \<and> is_upper c then char_of (of_char c + 32 :: nat) else c)
      in c' # canonicalize (c' = CHR ''-'') cs)"

text \<open>
  The library's unexported \<open>canonicalMIMEHeaderKey\<close>: a name holding a byte that is neither
  a token byte nor a space, or holding a space, is returned unchanged.
\<close>

definition canonicalMIMEHeaderKey :: "string \<Rightarrow> string" where
  "canonicalMIMEHeaderKey a =
     (if list_ex (\<lambda>c. \<not> validHeaderFieldByte c \<and> c \<noteq> CHR '' '') a then a
      else if list_ex (\<lambda>c. c = CHR '' '') a then a
      else canonicalize True a)"

text \<open>
  The scan of the exported \<open>CanonicalMIMEHeaderKey\<close>: it stops without change at the first
  byte that is not a token byte, and hands over to \<open>canonicalMIMEHeaderKey\<close> at the first
  letter in the wrong case.
\<close>

fun miscased :: "bool \<Rightarrow> string \<Rightarrow> bool" where
  "miscased upper [] = False"
| "miscased upper (c # cs) =
     (if \<not> validHeaderFieldByte c then False
      else if upper \<and> is_lower c then True
      else if \<not> upper \<and> is_upper c then True
      else miscased (c = CHR ''-'') cs)"

definition CanonicalMIMEHeaderKey :: "string \<Rightarrow> string" where
  "CanonicalMIMEHeaderKey s = (if miscased True s then canonicalMIMEHeaderKey s else s)"

text \<open>
  A name the library leaves as it is: token bytes only, already in canonical case.
\<close>

definition canonical_name :: "string \<Rightarrow> bool" where
  "canonical_name h = (list_all validHeaderFieldByte h \<and> canonicalize True h = h)"

section \<open>Header maps and hop-by-hop headers (handler.go)\<close>

text \<open>
  Operations of \<open>http.Header\<close> on the association list: \<open>h[k]\<close> (nil when absent), \<open>Add\<close>,
  \<open>Set\<close> and \<open>Del\<close>. The last three canonicalise the key they are given.
\<close>

definition Header_Values :: "Header \<Rightarrow> string \<Rightarrow> string list" where
  "Header_Values h k = (case map_of h k of None \<Rightarrow> [] | Some vs \<Rightarrow> vs)"

definition Header_Add :: "Header \<Rightarrow> string \<Rightarrow> string \<Rightarrow> Header" where
  "Header_Add h key val =
     (let k = CanonicalMIMEHeaderKey key in AList.update k (Header_Values h k @ [val]) h)"

definition Header_Set :: "Header \<Rightarrow> string \<Rightarrow> string \<Rightarrow> Header" where
  "Header_Set h key val = AList.update (CanonicalMIMEHeaderKey key) [val] h"

definition Header_Del :: "Header \<Rightarrow> string \<Rightarrow> Header" where
  "Header_Del h key = AList.delete (CanonicalMIMEHeaderKey key) h"

text \<open>
  \<open>cloneHeaders\<close>, \<open>copyHeaders\<close>, \<open>hopByHopHeaders\<close> and \<open>removeHopByHopHeaders\<close> of
  handler.go. The loops over a map are folds over the association list.
\<close>

definition cloneHeaders :: "Header \<Rightarrow> Header" where
  "cloneHeaders h = fold (\<lambda>(key, vals) result. AList.update key ([] @ vals) result) h []"

definition copyHeaders :: "Header \<Rightarrow> Header \<Rightarrow> Header" where
  "copyHeaders dst src =
     fold (\<lambda>(key, vals) d. fold (\<lambda>val d'. Header_Add d' key val) vals d) src dst"

definition hopByHopHeaders :: "string list" where
  "hopByHopHeaders =
     [''Connection'', ''Keep-Alive'', ''Proxy-Authenticate'', ''Proxy-Authorization'',
      ''Te'', ''Trailer'', ''Transfer-Encoding'', ''Upgrade'']"

definition removeHopByHopHeaders :: "Header \<Rightarrow> Header" where
  "removeHopByHopHeaders h = fold (\<lambda>header h'. Header_Del h' header) hopByHopHeaders h"

text \<open>
  A header name that denotes one of the eight hop-by-hop headers, in any spelling of
  upper and lower case.
\<close>

definition is_hop_by_hop :: "string \<Rightarrow> bool" where
  "is_hop_by_hop k = list_ex (\<lambda>h. map to_lower k = map to_lower h) hopByHopHeaders"

text \<open>
  The names present in a header map.
\<close>

definition header_keys :: "Header \<Rightarrow> string set" where
  "header_keys h = fst ` set h"

text \<open>
  A header map as Go's HTTP client and server produce it when they parse a message: no
  key twice, every key in canonical form.
\<close>

definition canonical_header :: "Header \<Rightarrow> bool" where
  "canonical_header h = (distinct (map fst h) \<and> list_all (\<lambda>e. CanonicalMIMEHeaderKey (fst e) = fst e) h)"

section \<open>Target URL (handler.go)\<close>

text \<open>
  Go's \<open>url.URL\<close>. \<open>u_User\<close> is the user-info part already rendered as text (\<open>None\<close> for
  a nil pointer).
\<close>

record URL =
  u_Scheme :: string
  u_Opaque :: string
  u_User :: "string option"
  u_Host :: string
  u_Path :: string
  u_RawPath :: string
  u_OmitHost :: bool
  u_ForceQuery :: bool
  u_RawQuery :: string
  u_Fragment :: string
  u_RawFragment :: string

text \<open>
  The percent-encoding functions of the package \<open>net/url\<close> that \<open>URL.String\<close> calls. They
  are parameters: every result about \<open>buildTargetURL\<close> holds whatever they compute.
\<close>

record url_lib =
  escape_host :: "string \<Rightarrow> string"
  EscapedPath :: "URL \<Rightarrow> string"
  EscapedFragment :: "URL \<Rightarrow> string"

definition IsAbs :: "URL \<Rightarrow> bool" where
  "IsAbs u = (u_Scheme u \<noteq> [])"

text \<open>
  \<open>URL.String\<close> of the standard library, in its order: scheme, then either the opaque part
  or the authority and the path, then the query and the fragment.
\<close>

definition url_authority :: "url_lib \<Rightarrow> URL \<Rightarrow> string" where
  "url_authority lib u =
     (if u_Scheme u \<noteq> [] \<or> u_Host u \<noteq> [] \<or> u_User u \<noteq> None then
        (if u_OmitHost u \<and> u_Host u = [] \<and> u_User u = None then []
         else (if u_Host u \<noteq> [] \<or> u_Path u \<noteq> [] \<or> u_User u \<noteq> None then ''//'' else [])
              @ (case u_User u of None \<Rightarrow> [] | Some ui \<Rightarrow> ui @ ''@'')
              @ (if u_Host u \<noteq> [] then escape_host lib (u_Host u) else []))
      else [])"

definition URL_String :: "url_lib \<Rightarrow> URL \<Rightarrow> string" where
  "URL_String lib u =
     (let scheme = (if u_Scheme u \<noteq> [] then u_Scheme u @ '':'' else []);
          path = EscapedPath lib u;
          hier =
            (if u_Opaque u \<noteq> [] then scheme @ u_Opaque u
             else
               (let buf = scheme @ url_authority lib u;
                    buf = (if path \<noteq> [] \<and> hd path \<noteq> CHR ''/'' \<and> u_Host u \<noteq> []
                           then buf @ ''/'' else buf);
                    buf = (if buf = [] \<and> CHR '':'' \<in> set (takeWhile (\<lambda>c. c \<noteq> CHR ''/'') path)
                           then buf @ ''./'' else buf)
                in buf @ path));
          query = (if u_ForceQuery u \<or> u_RawQuery u \<noteq> [] then ''?'' @ u_RawQuery u else []);
          fragment = (if u_Fragment u \<noteq> [] then ''#'' @ EscapedFragment lib u else [])
      in hier @ query @ fragment)"

text \<open>
  The fields of the inbound \<open>http.Request\<close> that the handlers read. \<open>r_Body\<close> holds the bytes
  the body reader yields before it ends (\<open>None\<close> for a nil body), \<open>r_ContentLength\<close> is Go's
  \<open>ContentLength\<close> (\<open>-1\<close> when the length is unknown, as for a chunked body), and \<open>r_TLS\<close>
  says whether \<open>r.TLS\<close> is non-nil.
\<close>

record Request =
  r_Method :: string
  r_URL :: URL
  r_Proto :: string
  r_Header :: Header
  r_Body :: "string option"
  r_ContentLength :: int
  r_Host :: string
  r_RemoteAddr :: string
  r_TLS :: bool

text \<open>
  \<open>buildTargetURL\<close> of handler.go; \<open>synthesized_url\<close> is the \<open>url.URL\<close> literal it builds
  when the request URL is not absolute.
\<close>

definition synthesized_url :: "Request \<Rightarrow> URL" where
  "synthesized_url r =
     (let scheme = (if r_TLS r then ''https'' else ''http'')
      in \<lparr>u_Scheme = scheme, u_Opaque = [], u_User = None, u_Host = r_Host r,
          u_Path = u_Path (r_URL r), u_RawPath = [], u_OmitHost = False,
          u_ForceQuery = False, u_RawQuery = u_RawQuery (r_URL r),
          u_Fragment = [], u_RawFragment = []\<rparr>)"

definition buildTargetURL :: "url_lib \<Rightarrow> Request \<Rightarrow> string" where
  "buildTargetURL lib r =
     (if IsAbs (r_URL r) then URL_String lib (r_URL r)
      else URL_String lib (synthesized_url r))"

section \<open>Requests, responses and the HTTP client\<close>

text \<open>
  The outgoing request handed to the HTTP client, and the response the client returns.
  \<open>resp_Body\<close> holds the bytes the response body yields.
\<close>

record OutReq =
  o_Method :: string
  o_URL :: string
  o_Header :: Header
  o_Body :: string

record Response =
  resp_StatusCode :: int
  resp_Header :: Header
  resp_Body :: string

text \<open>
  The \<open>http.ResponseWriter\<close> of the inbound request: its header map, the status written
  (\<open>None\<close> before \<open>WriteHeader\<close>), the body bytes written, and whether the writer
  implements \<open>http.Hijacker\<close>. \<open>WriteHeader\<close> keeps the first status; \<open>Write\<close> implies
  status 200 when none was written; \<open>http.Error\<close> sets two headers, writes the status and
  the message followed by a newline.
\<close>

record ResponseWriter =
  w_Header :: Header
  w_Status :: "int option"
  w_Body :: string
  w_Hijacker :: bool

definition WriteHeader :: "ResponseWriter \<Rightarrow> int \<Rightarrow> ResponseWriter" where
  "WriteHeader w code = (if w_Status w = None then w\<lparr>w_Status := Some code\<rparr> else w)"

definition Write :: "ResponseWriter \<Rightarrow> string \<Rightarrow> ResponseWriter" where
  "Write w b = (let w' = WriteHeader w 200 in w'\<lparr>w_Body := w_Body w' @ b\<rparr>)"

definition http_Error :: "ResponseWriter \<Rightarrow> string \<Rightarrow> int \<Rightarrow> ResponseWriter" where
  "http_Error w msg code =
     (let h = Header_Del (w_Header w) ''Content-Length'';
          h = Header_Set h ''Content-Type'' ''text/plain; charset=utf-8'';
          h = Header_Set h ''X-Content-Type-Options'' ''nosniff'';
          w' = WriteHeader (w\<lparr>w_Header := h\<rparr>) code
      in Write w' (msg @ [CHR 0x0A]))"

text \<open>
  \<open>Header.Get\<close>: the first value of the canonical key, or the empty string.
\<close>

definition Header_Get :: "Header \<Rightarrow> string \<Rightarrow> string" where
  "Header_Get h key =
     (case Header_Values h (CanonicalMIMEHeaderKey key) of [] \<Rightarrow> [] | v # _ \<Rightarrow> v)"

text \<open>
  Go errors that the model tells apart: the sentinel \<open>http.ErrUseLastResponse\<close>, a failure
  of the transport (DNS, connect, timeout), the client's "failed to parse Location header",
  and a redirect refused by a policy.
\<close>

datatype error = ErrUseLastResponse | ErrTransport | ErrLocation | ErrRedirect

text \<open>
  The fields of \<open>http.Client\<close> and of its \<open>http.Transport\<close> that \<open>NewHandler\<close> sets
  (durations in seconds). \<open>CheckRedirect\<close> returns \<open>None\<close> for a nil error.
\<close>

record Client =
  CheckRedirect :: "OutReq \<Rightarrow> OutReq list \<Rightarrow> error option"
  Timeout :: nat
  MaxIdleConns :: nat
  MaxIdleConnsPerHost :: nat
  IdleConnTimeout :: nat

text \<open>
  How the relay of a tunnel ends: which of the two \<open>io.Copy\<close> goroutines signals the
  channel \<open>done\<close> first, and whether its copy ended with an error.
\<close>

datatype relay_end = ClientToTargetDone bool | TargetToClientDone bool

text \<open>
  What lies outside the program during one request: the identifier and the clock
  readings, the library's verdict on the outgoing request, the origin behind the
  transport, whether \<open>URL.Parse\<close> rejects a Location value relative to a request URL and
  what it resolves to otherwise, \<open>net.SplitHostPort\<close>'s verdict on the host,
  the outcome of dialling, of hijacking and of writing the acknowledgement, and the end of
  the relay (\<open>None\<close> when neither direction ever finishes).
\<close>

record Env =
  uuid_New :: string
  time_Now :: nat
  time_Since :: nat
  url_escapes :: url_lib
  NewRequest_fails :: "string \<Rightarrow> string \<Rightarrow> bool"
  RoundTrip :: "OutReq \<Rightarrow> error + Response"
  Location_unparsable :: "string \<Rightarrow> string \<Rightarrow> bool"
  resolve_Location :: "string \<Rightarrow> string \<Rightarrow> string"
  SplitHostPort_fails :: "string \<Rightarrow> bool"
  DialTimeout_fails :: "string \<Rightarrow> bool"
  Hijack_fails :: bool
  conn_Write_fails :: bool
  relay_done :: "relay_end option"

text \<open>
  \<open>http.Client.Do\<close> of the standard library, as far as redirects go, in the order of
  its loop: the request is sent; a response without a redirect status, or with a redirect
  status and no \<open>Location\<close>, is returned; otherwise the \<open>Location\<close> is parsed relative to
  the request URL, and the call fails when it does not parse; only then \<open>CheckRedirect\<close> is
  asked about the request that would follow: on \<open>ErrUseLastResponse\<close> the response is
  returned, on another error the call fails, and on a nil error the next request is sent.
  The fuel bounds the number of requests sent; \<open>None\<close> is a call that has not returned
  within it. The second component lists the requests sent to the transport, in order.
\<close>

definition shouldRedirect :: "int \<Rightarrow> bool" where
  "shouldRedirect code = (code \<in> set [301, 302, 303, 307, 308])"

definition redirect_request :: "Env \<Rightarrow> OutReq \<Rightarrow> Response \<Rightarrow> string \<Rightarrow> OutReq" where
  "redirect_request env req resp loc =
     (let keep = (resp_StatusCode resp \<in> set [307, 308]) in
      \<lparr>o_Method = (if keep \<or> o_Method req = ''HEAD'' then o_Method req else ''GET''),
       o_URL = resolve_Location env (o_URL req) loc,
       o_Header = o_Header req,
       o_Body = (if keep then o_Body req else [])\<rparr>)"

fun client_do :: "Client \<Rightarrow> Env \<Rightarrow> nat \<Rightarrow> OutReq list \<Rightarrow> OutReq \<Rightarrow> ((error + Response) \<times> OutReq list) option" where
  "client_do c env 0 via req = None"
| "client_do c env (Suc fuel) via req =
     (let reqs = via @ [req] in
      case RoundTrip env req of
        Inl e \<Rightarrow> Some (Inl e, reqs)
      | Inr resp \<Rightarrow>
          if \<not> shouldRedirect (resp_StatusCode resp) then Some (Inr resp, reqs)
          else if Header_Get (resp_Header resp) ''Location'' = [] then Some (Inr resp, reqs)
          else if Location_unparsable env (o_URL req) (Header_Get (resp_Header resp) ''Location'')
            then Some (Inl ErrLocation, reqs)
          else
            (let next = redirect_request env req resp (Header_Get (resp_Header resp) ''Location'') in
             case CheckRedirect c next reqs of
               Some ErrUseLastResponse \<Rightarrow> Some (Inr resp, reqs)
             | Some e \<Rightarrow> Some (Inl e, reqs)
             | None \<Rightarrow> client_do c env fuel reqs next))"

text \<open>
  What \<open>Do\<close> returns for a client whose \<open>CheckRedirect\<close> always answers
  \<open>ErrUseLastResponse\<close>: the outcome of the one request it sends.
\<close>

definition dispatch_once :: "Env \<Rightarrow> OutReq \<Rightarrow> error + Response" where
  "dispatch_once env req =
     (case RoundTrip env req of
        Inl e \<Rightarrow> Inl e
      | Inr resp \<Rightarrow>
          if shouldRedirect (resp_StatusCode resp) \<and>
             Header_Get (resp_Header resp) ''Location'' \<noteq> [] \<and>
             Location_unparsable env (o_URL req) (Header_Get (resp_Header resp) ''Location'')
          then Inl ErrLocation else Inr resp)"

section \<open>The forwarding handler (handler.go)\<close>

text \<open>
  The struct \<open>Handler\<close> (its store is the \<open>world\<close> passed to the handlers) and
  \<open>NewHandler\<close>.
\<close>

record Handler =
  httpClient :: Client
  maxRequestSize :: int

definition NewHandler :: "int \<Rightarrow> Handler" where
  "NewHandler maxRequestSize0 =
     (let client = \<lparr>CheckRedirect = (\<lambda>req via. Some ErrUseLastResponse), Timeout = 60,
                     MaxIdleConns = 100, MaxIdleConnsPerHost = 10, IdleConnTimeout = 90\<rparr>
      in \<lparr>httpClient = client, maxRequestSize = maxRequestSize0\<rparr>)"

text \<open>
  What serving one request leaves behind: the store, the response writer, the records
  handed to \<open>Store.Add\<close>, the requests sent to the origin, the addresses dialled, the bytes
  written to the hijacked client connection (\<open>None\<close> when it was not hijacked), whether the
  two relay goroutines were started, and whether the deferred \<open>Close\<close> calls ran on the
  target and on the client connection.
\<close>

record Served =
  s_world :: world
  s_w :: ResponseWriter
  s_stored :: "CapturedRequest list"
  s_sent :: "OutReq list"
  s_dialed :: "string list"
  s_client_conn :: "string option"
  s_relay_started :: bool
  s_target_closed :: bool
  s_client_closed :: bool

text \<open>
  \<open>io.ReadAll(io.LimitReader(body, n))\<close>: at most \<open>n\<close> bytes, none when \<open>n \<le> 0\<close>.
\<close>

definition LimitReadAll :: "string \<Rightarrow> int \<Rightarrow> string" where
  "LimitReadAll body n = take (nat n) body"

text \<open>
  The parts of \<open>handleHTTP\<close> before the request is dispatched: the body read under the
  guard \<open>r.Body != nil && r.ContentLength > 0\<close>, the record filled from the request, and the
  outgoing request with the copied headers less the hop-by-hop ones.
\<close>

definition read_request_body :: "Handler \<Rightarrow> Request \<Rightarrow> string" where
  "read_request_body h r =
     (case r_Body r of
        None \<Rightarrow> []
      | Some body \<Rightarrow> if 0 < r_ContentLength r then LimitReadAll body (maxRequestSize h) else [])"

definition capture_request :: "Env \<Rightarrow> Handler \<Rightarrow> Request \<Rightarrow> CapturedRequest" where
  "capture_request env h r =
     (let captured = (NewCapturedRequest (time_Now env))
            \<lparr>ID := uuid_New env, Method := r_Method r, Host := r_Host r, Proto := r_Proto r,
             IsHTTPS := False, IsTunnel := False, ClientAddr := r_RemoteAddr r\<rparr>;
          captured = captured
            \<lparr>URL := buildTargetURL (url_escapes env) r, Path := u_Path (r_URL r),
             RequestHeaders := cloneHeaders (r_Header r)\<rparr>
      in if r_Body r \<noteq> None \<and> 0 < r_ContentLength r
         then captured\<lparr>RequestBody := read_request_body h r\<rparr> else captured)"

definition outgoing_request :: "Env \<Rightarrow> Handler \<Rightarrow> Request \<Rightarrow> OutReq" where
  "outgoing_request env h r =
     \<lparr>o_Method = r_Method r, o_URL = buildTargetURL (url_escapes env) r,
      o_Header = removeHopByHopHeaders (copyHeaders [] (r_Header r)),
      o_Body = read_request_body h r\<rparr>"

text \<open>
  \<open>handleHTTP\<close> of handler.go. A result \<open>None\<close> is a call that does not return, \<open>Inl\<close> a
  panic raised by the store.
\<close>

definition handleHTTP :: "Env \<Rightarrow> Handler \<Rightarrow> nat \<Rightarrow> world \<Rightarrow> ResponseWriter \<Rightarrow> Request \<Rightarrow> (panic + Served) option" where
  "handleHTTP env h fuel wd w r =
     (let captured = capture_request env h r;
          targetURL = buildTargetURL (url_escapes env) r
      in if NewRequest_fails env (r_Method r) targetURL then
           Some (Inr \<lparr>s_world = wd, s_w = http_Error w ''Bad Request'' 400, s_stored = [],
                      s_sent = [], s_dialed = [], s_client_conn = None, s_relay_started = False,
                      s_target_closed = False, s_client_closed = False\<rparr>)
         else
           (case client_do (httpClient h) env fuel [] (outgoing_request env h r) of
              None \<Rightarrow> None
            | Some (Inl err, sent) \<Rightarrow>
                Some (Inr \<lparr>s_world = wd, s_w = http_Error w ''Bad Gateway'' 502, s_stored = [],
                           s_sent = sent, s_dialed = [], s_client_conn = None,
                           s_relay_started = False, s_target_closed = False,
                           s_client_closed = False\<rparr>)
            | Some (Inr resp, sent) \<Rightarrow>
                (let captured = captured
                       \<lparr>StatusCode := resp_StatusCode resp,
                        ResponseHeaders := cloneHeaders (resp_Header resp)\<rparr>;
                     responseBody = LimitReadAll (resp_Body resp) (maxRequestSize h);
                     captured = captured\<lparr>ResponseBody := responseBody, Duration := time_Since env\<rparr>
                 in case Add wd captured of
                      Inl p \<Rightarrow> Some (Inl p)
                    | Inr wd' \<Rightarrow>
                        (let w1 = w\<lparr>w_Header := copyHeaders (w_Header w) (resp_Header resp)\<rparr>;
                             w2 = w1\<lparr>w_Header := removeHopByHopHeaders (w_Header w1)\<rparr>;
                             w3 = WriteHeader w2 (resp_StatusCode resp);
                             w4 = Write w3 responseBody
                         in Some (Inr \<lparr>s_world = wd', s_w = w4, s_stored = [captured],
                                    s_sent = sent, s_dialed = [], s_client_conn = None,
                                    s_relay_started = False, s_target_closed = False,
                                    s_client_closed = False\<rparr>)))))"

section \<open>The tunnel handler (https.go)\<close>

text \<open>
  \<open>net.JoinHostPort\<close>, and the acknowledgement line of the tunnel.
\<close>

definition JoinHostPort :: "string \<Rightarrow> string \<Rightarrow> string" where
  "JoinHostPort host port =
     (if CHR '':'' \<in> set host then ''['' @ host @ '']:'' @ port else host @ '':'' @ port)"

definition connection_established :: string where
  "connection_established = ''HTTP/1.1 200 Connection Established'' @ [CHR 0x0D, CHR 0x0A, CHR 0x0D, CHR 0x0A]"

text \<open>
  The end of every returning path of \<open>handleConnect\<close>: the record goes to \<open>Store.Add\<close>.
\<close>

definition store_tunnel :: "world \<Rightarrow> CapturedRequest \<Rightarrow> ResponseWriter \<Rightarrow> string \<Rightarrow> string option \<Rightarrow> bool \<Rightarrow> bool \<Rightarrow> bool \<Rightarrow> panic + Served" where
  "store_tunnel wd captured w host conn relay tclosed cclosed =
     (case Add wd captured of
        Inl p \<Rightarrow> Inl p
      | Inr wd' \<Rightarrow>
          Inr \<lparr>s_world = wd', s_w = w, s_stored = [captured], s_sent = [], s_dialed = [host],
               s_client_conn = conn, s_relay_started = relay, s_target_closed = tclosed,
               s_client_closed = cclosed\<rparr>)"

text \<open>
  \<open>handleConnect\<close> of https.go. The address dialled is the host as given, or with port
  443 when it does not split into host and port. After the acknowledgement the handler
  waits on \<open>done\<close> for the first of the two copies to finish; it does not return when
  neither does.
\<close>

definition dial_address :: "Env \<Rightarrow> Request \<Rightarrow> string" where
  "dial_address env r =
     (if SplitHostPort_fails env (r_Host r) then JoinHostPort (r_Host r) ''443'' else r_Host r)"

definition handleConnect :: "Env \<Rightarrow> Handler \<Rightarrow> world \<Rightarrow> ResponseWriter \<Rightarrow> Request \<Rightarrow> (panic + Served) option" where
  "handleConnect env h wd w r =
     (let captured = (NewCapturedRequest (time_Now env))
            \<lparr>ID := uuid_New env, Method := ''CONNECT'', Host := r_Host r,
             URL := ''https://'' @ r_Host r, Path := [], Proto := r_Proto r, IsHTTPS := True,
             IsTunnel := True, ClientAddr := r_RemoteAddr r,
             RequestHeaders := cloneHeaders (r_Header r)\<rparr>;
          host = dial_address env r
      in if DialTimeout_fails env host then
           Some (store_tunnel wd (captured\<lparr>StatusCode := 502, Duration := time_Since env\<rparr>)
                   (http_Error w ''Bad Gateway'' 502) host None False False False)
         else if \<not> w_Hijacker w then
           Some (store_tunnel wd (captured\<lparr>StatusCode := 500, Duration := time_Since env\<rparr>)
                   (http_Error w ''Internal Server Error'' 500) host None False True False)
         else if Hijack_fails env then
           Some (store_tunnel wd (captured\<lparr>StatusCode := 500, Duration := time_Since env\<rparr>)
                   (http_Error w ''Internal Server Error'' 500) host None False True False)
         else if conn_Write_fails env then
           Some (store_tunnel wd (captured\<lparr>StatusCode := 500, Duration := time_Since env\<rparr>)
                   w host (Some []) False True True)
         else
           (case relay_done env of
              None \<Rightarrow> None
            | Some ending \<Rightarrow>
                Some (store_tunnel wd (captured\<lparr>StatusCode := 200, Duration := time_Since env\<rparr>)
                        w host (Some connection_established) True True True)))"

text \<open>
  \<open>ServeHTTP\<close> of handler.go.
\<close>

definition ServeHTTP :: "Env \<Rightarrow> Handler \<Rightarrow> nat \<Rightarrow> world \<Rightarrow> ResponseWriter \<Rightarrow> Request \<Rightarrow> (panic + Served) option" where
  "ServeHTTP env h fuel wd w r =
     (if r_Method r = ''CONNECT'' then handleConnect env h wd w r
      else handleHTTP env h fuel wd w r)"

text \<open>
  The record \<open>handleHTTP\<close> stores and the response it writes once the origin has answered.
\<close>

definition finished_record :: "Env \<Rightarrow> Handler \<Rightarrow> Request \<Rightarrow> Response \<Rightarrow> CapturedRequest" where
  "finished_record env h r resp =
     (capture_request env h r)
       \<lparr>StatusCode := resp_StatusCode resp, ResponseHeaders := cloneHeaders (resp_Header resp),
        ResponseBody := LimitReadAll (resp_Body resp) (maxRequestSize h),
        Duration := time_Since env\<rparr>"

definition relayed_response :: "Handler \<Rightarrow> ResponseWriter \<Rightarrow> Response \<Rightarrow> ResponseWriter" where
  "relayed_response h w resp =
     Write (WriteHeader
              (w\<lparr>w_Header := removeHopByHopHeaders (copyHeaders (w_Header w) (resp_Header resp))\<rparr>)
              (resp_StatusCode resp))
       (LimitReadAll (resp_Body resp) (maxRequestSize h))"

section \<open>Sample inputs\<close>

text \<open>
  Concrete requests, responses and environments for the instances below.
\<close>

definition demo_lib :: url_lib where
  "demo_lib = \<lparr>escape_host = (\<lambda>s. s), EscapedPath = (\<lambda>u. u_Path u), EscapedFragment = (\<lambda>u. u_Fragment u)\<rparr>"

definition demo_url :: URL where
  "demo_url =
     \<lparr>u_Scheme = ''http'', u_Opaque = [], u_User = None, u_Host = ''example.test'',
      u_Path = ''/a'', u_RawPath = [], u_OmitHost = False, u_ForceQuery = False,
      u_RawQuery = ''b=1'', u_Fragment = [], u_RawFragment = []\<rparr>"

definition demo_request :: Request where
  "demo_request =
     \<lparr>r_Method = ''GET'', r_URL = demo_url, r_Proto = ''HTTP/1.1'',
      r_Header = [(''X-Test'', [''v'']), (''Connection'', [''keep-alive'']), (''upgrade'', [''h2c''])],
      r_Body = None, r_ContentLength = 0, r_Host = ''example.test'',
      r_RemoteAddr = ''127.0.0.1:5000'', r_TLS = False\<rparr>"

definition demo_response :: Response where
  "demo_response =
     \<lparr>resp_StatusCode = 302,
      resp_Header = [(''Location'', [''http://example.test/b'']), (''Keep-Alive'', [''timeout=5''])],
      resp_Body = ''moved''\<rparr>"

definition demo_env :: Env where
  "demo_env =
     \<lparr>uuid_New = ''id-1'', time_Now = 0, time_Since = 7, url_escapes = demo_lib,
      NewRequest_fails = (\<lambda>m u. False), RoundTrip = (\<lambda>q. Inr demo_response),
      Location_unparsable = (\<lambda>base loc. False),
      resolve_Location = (\<lambda>base loc. loc), SplitHostPort_fails = (\<lambda>h. False),
      DialTimeout_fails = (\<lambda>a. False), Hijack_fails = False, conn_Write_fails = False,
      relay_done = Some (ClientToTargetDone True)\<rparr>"

definition demo_writer :: ResponseWriter where
  "demo_writer = \<lparr>w_Header = [], w_Status = None, w_Body = [], w_Hijacker = True\<rparr>"

definition failing_env :: Env where
  "failing_env = demo_env\<lparr>RoundTrip := (\<lambda>q. Inl ErrTransport)\<rparr>"

definition chunked_request :: Request where
  "chunked_request = demo_request\<lparr>r_Method := ''POST'', r_Body := Some ''hello'', r_ContentLength := - 1\<rparr>"

text \<open>
  A redirect whose Location is not a URL (an invalid percent escape), and an environment
  in which the origin sends it.
\<close>

definition bad_location_response :: Response where
  "bad_location_response =
     \<lparr>resp_StatusCode = 302, resp_Header = [(''Location'', [''http://example.test/%zz''])],
      resp_Body = []\<rparr>"

definition bad_location_env :: Env where
  "bad_location_env =
     demo_env\<lparr>RoundTrip := (\<lambda>q. Inr bad_location_response),
              Location_unparsable := (\<lambda>base loc. loc = ''http://example.test/%zz'')\<rparr>"

definition relative_request :: Request where
  "relative_request = demo_request\<lparr>r_URL := demo_url\<lparr>u_Scheme := [], u_Host := []\<rparr>, r_TLS := True\<rparr>"

text \<open>
  The record \<open>handleConnect\<close> stores, with the status of the path taken.
\<close>

definition tunnel_record :: "Env \<Rightarrow> Request \<Rightarrow> int \<Rightarrow> CapturedRequest" where
  "tunnel_record env r code =
     (NewCapturedRequest (time_Now env))
       \<lparr>ID := uuid_New env, Method := ''CONNECT'', Host := r_Host r,
        URL := ''https://'' @ r_Host r, Path := [], Proto := r_Proto r, IsHTTPS := True,
        IsTunnel := True, ClientAddr := r_RemoteAddr r,
        RequestHeaders := cloneHeaders (r_Header r), StatusCode := code,
        Duration := time_Since env\<rparr>"

definition connect_request :: Request where
  "connect_request =
     \<lparr>r_Method = ''CONNECT'',
      r_URL = \<lparr>u_Scheme = [], u_Opaque = [], u_User = None, u_Host = ''example.test:443'',
               u_Path = [], u_RawPath = [], u_OmitHost = False, u_ForceQuery = False,
               u_RawQuery = [], u_Fragment = [], u_RawFragment = []\<rparr>,
      r_Proto = ''HTTP/1.1'', r_Header = [], r_Body = None, r_ContentLength = 0,
      r_Host = ''example.test:443'', r_RemoteAddr = ''127.0.0.1:5000'', r_TLS = False\<rparr>"

definition unreachable_env :: Env where
  "unreachable_env = demo_env\<lparr>DialTimeout_fails := (\<lambda>a. True)\<rparr>"

section \<open>Properties of the store\<close>

lemma trysend_open:
  assumes "ch < length hp" "\<not> ch_closed (hp ! ch)"
  shows "trysend hp ch r =
           Inr (if length (ch_buf (hp ! ch)) < ch_cap (hp ! ch)
                then hp[ch := (hp ! ch)\<lparr>ch_buf := ch_buf (hp ! ch) @ [r]\<rparr>] else hp)"
  using assms by (simp add: trysend_def Let_def)

lemma notify_open:
  assumes "list_all (\<lambda>ch. ch < length hp \<and> \<not> ch_closed (hp ! ch)) chs" "distinct chs"
  shows "\<exists>hp'. notifySubscribers chs hp r = Inr hp' \<and> length hp' = length hp \<and>
           (\<forall>i<length hp. hp' ! i = deliver chs r (hp ! i) i)"
  using assms
proof (induction chs arbitrary: hp)
  case Nil
  then show ?case by (simp add: deliver_def)
next
  case (Cons ch chs)
  let ?hp1 = "(if length (ch_buf (hp ! ch)) < ch_cap (hp ! ch)
                then hp[ch := (hp ! ch)\<lparr>ch_buf := ch_buf (hp ! ch) @ [r]\<rparr>] else hp)"
  from Cons.prems have ch: "ch < length hp" "\<not> ch_closed (hp ! ch)" "ch \<notin> set chs" "distinct chs"
    by auto
  have t: "trysend hp ch r = Inr ?hp1" using ch by (simp add: trysend_open)
  have pre: "list_all (\<lambda>c. c < length ?hp1 \<and> \<not> ch_closed (?hp1 ! c)) chs"
    using Cons.prems(1) ch(3) by (auto simp: list_all_iff nth_list_update)
  from Cons.IH[OF pre ch(4)] obtain hp' where
    h: "notifySubscribers chs ?hp1 r = Inr hp'" "length hp' = length ?hp1"
       "\<forall>i<length ?hp1. hp' ! i = deliver chs r (?hp1 ! i) i" by blast
  have "\<forall>i<length hp. hp' ! i = deliver (ch # chs) r (hp ! i) i"
  proof (intro allI impI)
    fix i assume i: "i < length hp"
    show "hp' ! i = deliver (ch # chs) r (hp ! i) i"
    proof (cases "i = ch")
      case True
      then show ?thesis using h(3) i ch(3) by (simp add: deliver_def)
    next
      case False
      then show ?thesis using h(3) i by (simp add: deliver_def)
    qed
  qed
  then show ?case using t h(1) h(2) by simp
qed

lemma deliver_fields:
  "ch_closed (deliver chs r c i) = ch_closed c" "ch_cap (deliver chs r c i) = ch_cap c"
  by (simp_all add: deliver_def)

lemma trysend_keeps:
  "trysend hp ch r = Inr hp' \<Longrightarrow>
     length hp' = length hp \<and> (\<forall>i. ch_closed (hp' ! i) = ch_closed (hp ! i))"
  by (auto simp: trysend_def Let_def nth_list_update split: if_splits)

lemma notify_keeps:
  "notifySubscribers chs hp r = Inr hp' \<Longrightarrow>
     length hp' = length hp \<and> (\<forall>i. ch_closed (hp' ! i) = ch_closed (hp ! i))"
proof (induction chs arbitrary: hp)
  case Nil
  then show ?case by simp
next
  case (Cons ch chs)
  then obtain hp1 where t: "trysend hp ch r = Inr hp1" and n: "notifySubscribers chs hp1 r = Inr hp'"
    by (auto split: sum.splits)
  from trysend_keeps[OF t] Cons.IH[OF n] show ?case by simp
qed

lemma Add_ok:
  assumes "store_inv w"
  shows "\<exists>w'. Add w r = Inr w' \<and> store_inv w' \<and>
           maxSize (store w') = maxSize (store w) \<and>
           subscribers (store w') = subscribers (store w) \<and>
           requests (store w') =
             (if maxSize (store w) \<le> int (length (requests (store w)))
              then tl (requests (store w)) else requests (store w)) @ [r] \<and>
           length (heap w') = length (heap w) \<and>
           (\<forall>i<length (heap w). heap w' ! i = deliver (subscribers (store w)) r (heap w ! i) i)"
proof -
  from assms have pos: "0 < maxSize (store w)" and le: "int (length (requests (store w))) \<le> maxSize (store w)"
    and d: "distinct (subscribers (store w))"
    and a: "list_all (\<lambda>ch. ch < length (heap w) \<and> \<not> ch_closed (heap w ! ch)) (subscribers (store w))"
    by (simp_all add: store_inv_def)
  from notify_open[OF a d, of r] obtain hp' where
    h: "notifySubscribers (subscribers (store w)) (heap w) r = Inr hp'" "length hp' = length (heap w)"
       "\<forall>i<length (heap w). hp' ! i = deliver (subscribers (store w)) r (heap w ! i) i" by blast
  have ne: "\<not> (maxSize (store w) \<le> int (length (requests (store w))) \<and> requests (store w) = [])"
    using pos by auto
  let ?rs = "(if maxSize (store w) \<le> int (length (requests (store w)))
              then tl (requests (store w)) else requests (store w)) @ [r]"
  let ?w' = "\<lparr>store = (store w)\<lparr>requests := ?rs\<rparr>, heap = hp'\<rparr>"
  have eq: "Add w r = Inr ?w'" using ne h(1) by (simp add: Add_def Let_def)
  have len: "int (length ?rs) \<le> maxSize (store w)" using le pos by auto
  have a': "list_all (\<lambda>ch. ch < length hp' \<and> \<not> ch_closed (hp' ! ch)) (subscribers (store w))"
    using a h(2) h(3) by (auto simp: list_all_iff deliver_fields)
  have "store_inv ?w'" using pos len d a' by (simp add: store_inv_def)
  then show ?thesis using eq h(2) h(3) by simp
qed

lemma drop_last_step:
  assumes "length old \<le> C" "0 < C"
  shows "drop (length (((if C \<le> length old then tl old else old) @ [r]) @ rs) - C)
              (((if C \<le> length old then tl old else old) @ [r]) @ rs)
         = drop (length (old @ r # rs) - C) (old @ r # rs)"
proof (cases "C \<le> length old")
  case True
  with assms have l: "length old = C" by simp
  with assms(2) obtain x xs where old: "old = x # xs" by (cases old) auto
  from l old have C: "C = Suc (length xs)" by simp
  show ?thesis unfolding C old by simp
next
  case False
  then show ?thesis by simp
qed

lemma add_all_ok:
  assumes "store_inv w"
  shows "\<exists>w'. add_all w rs = Inr w' \<and> store_inv w' \<and>
           maxSize (store w') = maxSize (store w) \<and>
           subscribers (store w') = subscribers (store w) \<and>
           requests (store w') =
             drop (length (requests (store w) @ rs) - nat (maxSize (store w))) (requests (store w) @ rs)"
  using assms
proof (induction rs arbitrary: w)
  case Nil
  then have "length (requests (store w)) - nat (maxSize (store w)) = 0"
    unfolding store_inv_def by linarith
  then show ?case using Nil by simp
next
  case (Cons r rs)
  from Add_ok[OF Cons.prems, of r] obtain w1 where
    w1: "Add w r = Inr w1" "store_inv w1" "maxSize (store w1) = maxSize (store w)"
        "subscribers (store w1) = subscribers (store w)"
        "requests (store w1) =
             (if maxSize (store w) \<le> int (length (requests (store w)))
              then tl (requests (store w)) else requests (store w)) @ [r]" by blast
  from Cons.IH[OF w1(2)] obtain w' where
    w': "add_all w1 rs = Inr w'" "store_inv w'" "maxSize (store w') = maxSize (store w1)"
        "subscribers (store w') = subscribers (store w1)"
        "requests (store w') =
           drop (length (requests (store w1) @ rs) - nat (maxSize (store w1))) (requests (store w1) @ rs)"
    by blast
  let ?C = "nat (maxSize (store w))"
  let ?old = "requests (store w)"
  from Cons.prems have c: "length ?old \<le> ?C" "0 < ?C" unfolding store_inv_def by linarith+
  have cond: "(maxSize (store w) \<le> int (length ?old)) = (?C \<le> length ?old)" using c by auto
  have "requests (store w') = drop (length (?old @ r # rs) - ?C) (?old @ r # rs)"
    using w'(5) w1(5) w1(3) drop_last_step[OF c, of r rs] by (simp only: cond)
  then show ?case using w1(1) w1(3) w1(4) w'(1-4) by simp
qed

lemma find_first_evicted:
  assumes "distinct (map ID rs)" "0 < k" "k \<le> length rs"
  shows "find (\<lambda>req. ID req = ID (hd rs)) (drop k rs) = None"
proof -
  from assms obtain x xs where rs: "rs = x # xs" by (cases rs) auto
  from assms(2) obtain j where k: "k = Suc j" by (cases k) auto
  have "set (drop j xs) \<subseteq> set xs" by (rule set_drop_subset)
  moreover have "ID x \<notin> ID ` set xs" using assms(1) rs by simp
  ultimately have "\<forall>y\<in>set (drop j xs). ID y \<noteq> ID x" by (metis imageI subsetD)
  then show ?thesis using rs k by (simp add: find_None_iff)
qed

lemma store_inv_new_world: "store_inv (new_world n)"
  by (simp add: store_inv_def new_world_def NewStore_def Let_def)

lemma Subscribe_ok:
  assumes "store_inv w" "Subscribe w = (ch, w1)"
  shows "store_inv w1 \<and> ch < length (heap w1) \<and> \<not> ch < length (heap w) \<and>
         ch \<in> set (subscribers (store w1)) \<and>
         length (heap w1) = Suc (length (heap w)) \<and>
         heap w1 ! ch = \<lparr>ch_buf = [], ch_cap = 100, ch_closed = False\<rparr> \<and>
         (\<forall>i<length (heap w). heap w1 ! i = heap w ! i) \<and>
         requests (store w1) = requests (store w) \<and> maxSize (store w1) = maxSize (store w)"
proof -
  from assms(2) have ch: "ch = length (heap w)"
    and w1: "w1 = \<lparr>store = (store w)\<lparr>subscribers := List.insert ch (subscribers (store w))\<rparr>,
               heap = heap w @ [\<lparr>ch_buf = [], ch_cap = 100, ch_closed = False\<rparr>]\<rparr>"
    by (auto simp: Subscribe_def Let_def)
  from assms(1) have a: "list_all (\<lambda>c. c < length (heap w) \<and> \<not> ch_closed (heap w ! c)) (subscribers (store w))"
    and d: "distinct (subscribers (store w))" and rest: "0 < maxSize (store w)"
      "int (length (requests (store w))) \<le> maxSize (store w)"
    by (simp_all add: store_inv_def)
  have nin: "ch \<notin> set (subscribers (store w))" using a ch by (auto simp: list_all_iff)
  have "store_inv w1"
    using a d rest nin unfolding w1 store_inv_def ch
    by (auto simp: list_all_iff nth_append List.insert_def)
  then show ?thesis unfolding w1 ch by (simp add: nth_append)
qed

lemma Unsubscribe_ok:
  assumes "store_inv w" "ch < length (heap w)" "\<not> ch_closed (heap w ! ch)"
  shows "\<exists>w1. Unsubscribe w ch = Inr w1 \<and> store_inv w1 \<and>
           length (heap w1) = length (heap w) \<and> ch_closed (heap w1 ! ch) \<and>
           ch \<notin> set (subscribers (store w1)) \<and>
           (\<forall>i. i \<noteq> ch \<longrightarrow> heap w1 ! i = heap w ! i) \<and>
           ch_buf (heap w1 ! ch) = ch_buf (heap w ! ch) \<and>
           requests (store w1) = requests (store w)"
proof -
  let ?w1 = "\<lparr>store = (store w)\<lparr>subscribers := removeAll ch (subscribers (store w))\<rparr>,
              heap = (heap w)[ch := (heap w ! ch)\<lparr>ch_closed := True\<rparr>]\<rparr>"
  have eq: "Unsubscribe w ch = Inr ?w1" using assms(2,3) by (simp add: Unsubscribe_def Let_def)
  have "store_inv ?w1" using assms(1)
    by (auto simp: store_inv_def list_all_iff nth_list_update distinct_removeAll)
  then show ?thesis using eq assms(2) by simp
qed

lemma Unsubscribe_closed:
  "ch < length (heap w) \<Longrightarrow> ch_closed (heap w ! ch) \<Longrightarrow> Unsubscribe w ch = Inl CloseOfClosedChannel"
  by (simp add: Unsubscribe_def Let_def)

lemma Unsubscribe_Inr:
  "Unsubscribe w ch = Inr w1 \<Longrightarrow> ch < length (heap w) \<and> \<not> ch_closed (heap w ! ch)"
  by (auto simp: Unsubscribe_def Let_def split: if_splits)

lemma Add_keeps_closed:
  "Add w r = Inr w1 \<Longrightarrow>
     length (heap w1) = length (heap w) \<and> (\<forall>i. ch_closed (heap w1 ! i) = ch_closed (heap w ! i))"
  by (auto simp: Add_def Let_def split: if_splits sum.splits dest: notify_keeps)

lemma step_keeps_closed:
  assumes "step (w, lg) x = Inr (w1, lg1)" "ch < length (heap w)" "ch_closed (heap w ! ch)"
  shows "ch < length (heap w1) \<and> ch_closed (heap w1 ! ch)"
proof (cases x)
  case (OpAdd r)
  then show ?thesis using assms by (auto split: sum.splits dest: Add_keeps_closed)
next
  case OpClear
  then show ?thesis using assms by (auto simp: Clear_def)
next
  case OpSubscribe
  then show ?thesis using assms by (auto simp: Subscribe_def Let_def nth_append)
next
  case (OpUnsubscribe c)
  then show ?thesis using assms
    by (auto simp: Unsubscribe_def Let_def nth_list_update split: sum.splits if_splits)
next
  case (OpRecv c)
  then show ?thesis using assms
    by (auto simp: chan_recv_def nth_list_update split: if_splits option.splits list.splits)
qed

lemma exec_no_second_close:
  assumes "exec (w, lg) ops = Inr s" "ch < length (heap w)" "ch_closed (heap w ! ch)"
  shows "OpUnsubscribe ch \<notin> set ops"
  using assms
proof (induction ops arbitrary: w lg)
  case Nil
  then show ?case by simp
next
  case (Cons x xs)
  from Cons.prems(1) obtain w1 lg1 where st: "step (w, lg) x = Inr (w1, lg1)"
    and ex: "exec (w1, lg1) xs = Inr s"
    by (auto split: sum.splits)
  from step_keeps_closed[OF st Cons.prems(2,3)] have c1: "ch < length (heap w1)" "ch_closed (heap w1 ! ch)"
    by simp_all
  have "x \<noteq> OpUnsubscribe ch"
  proof
    assume "x = OpUnsubscribe ch"
    with st show False using Unsubscribe_closed[OF Cons.prems(2,3)] by simp
  qed
  then show ?case using Cons.IH[OF ex c1] by simp
qed

lemma step_inv:
  assumes "store_inv w" "step (w, lg) x = Inr (w1, lg1)"
  shows "store_inv w1 \<and> length (heap w) \<le> length (heap w1)"
proof (cases x)
  case (OpAdd r)
  from Add_ok[OF assms(1), of r] show ?thesis using assms(2) OpAdd by auto
next
  case OpClear
  then show ?thesis using assms by (auto simp: Clear_def store_inv_def)
next
  case OpSubscribe
  then have "Subscribe w = (fst (Subscribe w), w1)" using assms(2) by auto
  from Subscribe_ok[OF assms(1) this] show ?thesis by simp
next
  case (OpUnsubscribe c)
  then obtain u: "Unsubscribe w c = Inr w1" using assms(2) by (auto split: sum.splits)
  from Unsubscribe_Inr[OF u] Unsubscribe_ok[OF assms(1), of c] u show ?thesis by auto
next
  case (OpRecv c)
  then show ?thesis using assms
    by (auto simp: chan_recv_def store_inv_def list_all_iff nth_list_update
             split: if_splits option.splits list.splits)
qed

lemma received_append: "received ch (lg @ lg') = received ch lg @ received ch lg'"
  by (simp add: received_def)

lemma step_chan:
  assumes "store_inv w" "ch < length (heap w)" "step (w, lg) x = Inr (w1, lg1)"
  shows "\<exists>d. subseq d (appended [x]) \<and>
           received ch lg1 @ ch_buf (heap w1 ! ch) = received ch lg @ ch_buf (heap w ! ch) @ d"
proof (cases x)
  case (OpAdd r)
  from Add_ok[OF assms(1), of r] assms(3) OpAdd
  have h: "heap w1 ! ch = deliver (subscribers (store w)) r (heap w ! ch) ch" "lg1 = lg"
    using assms(2) by auto
  show ?thesis
  proof (cases "ch \<in> set (subscribers (store w)) \<and> length (ch_buf (heap w ! ch)) < ch_cap (heap w ! ch)")
    case True
    then show ?thesis using h OpAdd by (intro exI[of _ "[r]"]) (simp add: deliver_def)
  next
    case False
    then show ?thesis using h OpAdd by (intro exI[of _ "[]"]) (auto simp add: deliver_def)
  qed
next
  case OpClear
  then show ?thesis using assms by (intro exI[of _ "[]"]) (auto simp: Clear_def)
next
  case OpSubscribe
  then show ?thesis using assms by (intro exI[of _ "[]"]) (auto simp: Subscribe_def Let_def nth_append)
next
  case (OpUnsubscribe c)
  then show ?thesis using assms
    by (intro exI[of _ "[]"])
       (auto simp: Unsubscribe_def Let_def nth_list_update split: sum.splits if_splits)
next
  case (OpRecv c)
  then show ?thesis using assms
    by (intro exI[of _ "[]"])
       (auto simp: chan_recv_def nth_list_update received_def split: if_splits option.splits list.splits)
qed

lemma appended_Cons: "appended (x # xs) = appended [x] @ appended xs"
  by (cases x) simp_all

lemma exec_chan:
  assumes "store_inv w" "ch < length (heap w)" "exec (w, lg) ops = Inr (w', lg')"
  shows "\<exists>d. subseq d (appended ops) \<and>
           received ch lg' @ ch_buf (heap w' ! ch) = received ch lg @ ch_buf (heap w ! ch) @ d"
  using assms
proof (induction ops arbitrary: w lg)
  case Nil
  then show ?case by (intro exI[of _ "[]"]) simp
next
  case (Cons x xs)
  from Cons.prems(3) obtain w1 lg1 where st: "step (w, lg) x = Inr (w1, lg1)"
    and ex: "exec (w1, lg1) xs = Inr (w', lg')"
    by (auto split: sum.splits)
  from step_inv[OF Cons.prems(1) st] Cons.prems(2) have i1: "store_inv w1" "ch < length (heap w1)"
    by simp_all
  from step_chan[OF Cons.prems(1,2) st] obtain d1 where
    d1: "subseq d1 (appended [x])"
        "received ch lg1 @ ch_buf (heap w1 ! ch) = received ch lg @ ch_buf (heap w ! ch) @ d1" by blast
  from Cons.IH[OF i1 ex] obtain d2 where
    d2: "subseq d2 (appended xs)"
        "received ch lg' @ ch_buf (heap w' ! ch) = received ch lg1 @ ch_buf (heap w1 ! ch) @ d2" by blast
  have "subseq (d1 @ d2) (appended (x # xs))"
    using d1(1) d2(1) by (subst appended_Cons) (rule list_emb_append_mono)
  moreover have "received ch lg' @ ch_buf (heap w' ! ch) = received ch lg @ ch_buf (heap w ! ch) @ d1 @ d2"
    using d1(2) d2(2) by (metis append.assoc)
  ultimately show ?case by blast
qed

text \<open>
  Claim C2. From any state of a store that \<open>NewStore\<close> made, a sequence of \<open>Add\<close> calls
  never panics, leaves at most \<open>maxSize\<close> records, and leaves exactly the last \<open>maxSize\<close>
  of the records (those held before, followed by the appended ones), in the order in which
  they were appended. Since this holds for every sequence, it holds after every prefix of
  it, so the size never exceeds the capacity on the way. Started on an empty store with more
  appends than the capacity, the count equals the capacity, and when the identifiers are
  distinct \<open>GetByID\<close> no longer finds the record appended first; in particular for 1001
  appends into a store of capacity 1000.
\<close>

theorem Store_Add_keeps_last_records:
  assumes "store_inv w"
  shows "\<exists>w'. add_all w rs = Inr w' \<and> store_inv w' \<and>
           maxSize (store w') = maxSize (store w) \<and>
           Count w' \<le> maxSize (store w) \<and>
           GetAll w' = drop (length (GetAll w @ rs) - nat (maxSize (store w))) (GetAll w @ rs) \<and>
           (GetAll w = [] \<and> nat (maxSize (store w)) < length rs \<longrightarrow>
              Count w' = maxSize (store w) \<and>
              (distinct (map ID rs) \<longrightarrow> GetByID w' (ID (hd rs)) = None)) \<and>
           (GetAll w = [] \<and> maxSize (store w) = 1000 \<and> length rs = 1001 \<and> distinct (map ID rs) \<longrightarrow>
              Count w' = 1000 \<and> GetByID w' (ID (hd rs)) = None)"
proof -
  let ?C = "nat (maxSize (store w))"
  from add_all_ok[OF assms, of rs] obtain w' where
    w': "add_all w rs = Inr w'" "store_inv w'" "maxSize (store w') = maxSize (store w)"
        "requests (store w') = drop (length (requests (store w) @ rs) - ?C) (requests (store w) @ rs)"
    by blast
  from assms have pos: "0 < ?C" unfolding store_inv_def by linarith
  have le: "Count w' \<le> maxSize (store w)" using w'(2,3) by (simp add: store_inv_def Count_def)
  have full: "Count w' = maxSize (store w) \<and>
              (distinct (map ID rs) \<longrightarrow> GetByID w' (ID (hd rs)) = None)"
    if e: "GetAll w = []" and l: "?C < length rs"
  proof -
    have r: "requests (store w') = drop (length rs - ?C) rs" using w'(4) e by (simp add: GetAll_def)
    have "length (requests (store w')) = ?C" unfolding r using l by simp
    then have c: "Count w' = maxSize (store w)" using pos by (simp add: Count_def)
    have "GetByID w' (ID (hd rs)) = None" if d: "distinct (map ID rs)"
      unfolding GetByID_def r using find_first_evicted[OF d, of "length rs - ?C"] l by simp
    with c show ?thesis by simp
  qed
  have scen: "Count w' = 1000 \<and> GetByID w' (ID (hd rs)) = None"
    if "GetAll w = []" "maxSize (store w) = 1000" "length rs = 1001" "distinct (map ID rs)"
    using full that by simp
  show ?thesis using w'(1-3) le w'(4) full scen by (auto simp: GetAll_def)
qed

lemma sample_distinct: "distinct (map ID (map sample_record [0..<n]))"
proof -
  have "inj (\<lambda>i. ID (sample_record i))"
    by (rule injI) (simp add: sample_record_def replicate_eq_replicate)
  then show ?thesis by (simp add: distinct_map comp_def inj_on_def)
qed

text \<open>The scenario itself: 1001 records with distinct identifiers, capacity 1000.\<close>

theorem Store_Add_keeps_last_records_witness:
  "\<exists>w'. add_all (new_world 1000) (map sample_record [0..<1001]) = Inr w' \<and>
         Count w' = 1000 \<and> GetByID w' (ID (sample_record 0)) = None"
proof -
  have e: "GetAll (new_world 1000) = []" "maxSize (store (new_world 1000)) = 1000"
    by (simp_all add: GetAll_def new_world_def NewStore_def)
  have h: "hd (map sample_record [0..<1001]) = sample_record 0"
    by (simp add: hd_map)
  from Store_Add_keeps_last_records[OF store_inv_new_world, of 1000 "map sample_record [0..<1001]"]
  show ?thesis using e h sample_distinct[of 1001] by auto
qed

text \<open>
  Claim C8. An \<open>Add\<close> on a store in a reachable state returns (it neither panics nor
  waits), and for every registered subscriber the record is put at the end of its queue
  when the queue has room and is dropped, the queue unchanged, when the queue is full.
  A channel returned by \<open>Subscribe\<close> starts with an empty queue whatever the store already
  holds, and after any sequence of store calls and receives that follows, what its consumer
  received followed by what is still queued is a subsequence of the records appended after
  the subscription: nothing appended earlier, nothing out of order, nothing twice.
\<close>

theorem subscriber_delivery:
  assumes "store_inv w"
  shows "(\<exists>w'. Add w r = Inr w' \<and>
            (\<forall>ch\<in>set (subscribers (store w)).
               ch_buf (heap w' ! ch) =
                 (if length (ch_buf (heap w ! ch)) < ch_cap (heap w ! ch)
                  then ch_buf (heap w ! ch) @ [r] else ch_buf (heap w ! ch)))) \<and>
         (\<forall>ch w1. Subscribe w = (ch, w1) \<longrightarrow>
            store_inv w1 \<and> ch \<in> set (subscribers (store w1)) \<and> ch_buf (heap w1 ! ch) = [] \<and>
            (\<forall>ops w2 lg. exec (w1, []) ops = Inr (w2, lg) \<longrightarrow>
               subseq (received ch lg @ ch_buf (heap w2 ! ch)) (appended ops)))"
proof -
  have a: "\<exists>w'. Add w r = Inr w' \<and>
            (\<forall>ch\<in>set (subscribers (store w)).
               ch_buf (heap w' ! ch) =
                 (if length (ch_buf (heap w ! ch)) < ch_cap (heap w ! ch)
                  then ch_buf (heap w ! ch) @ [r] else ch_buf (heap w ! ch)))"
  proof -
    from Add_ok[OF assms, of r] obtain w' where
      w': "Add w r = Inr w'"
          "\<forall>i<length (heap w). heap w' ! i = deliver (subscribers (store w)) r (heap w ! i) i"
      by blast
    have "\<forall>ch\<in>set (subscribers (store w)). ch < length (heap w)"
      using assms by (simp add: store_inv_def list_all_iff)
    then have "\<forall>ch\<in>set (subscribers (store w)).
               ch_buf (heap w' ! ch) =
                 (if length (ch_buf (heap w ! ch)) < ch_cap (heap w ! ch)
                  then ch_buf (heap w ! ch) @ [r] else ch_buf (heap w ! ch))"
      using w'(2) by (simp add: deliver_def)
    with w'(1) show ?thesis by blast
  qed
  have b: "store_inv w1 \<and> ch \<in> set (subscribers (store w1)) \<and> ch_buf (heap w1 ! ch) = [] \<and>
            (\<forall>ops w2 lg. exec (w1, []) ops = Inr (w2, lg) \<longrightarrow>
               subseq (received ch lg @ ch_buf (heap w2 ! ch)) (appended ops))"
    if s: "Subscribe w = (ch, w1)" for ch w1
  proof -
    from Subscribe_ok[OF assms s] have
      i: "store_inv w1" and m: "ch \<in> set (subscribers (store w1))"
      and l: "ch < length (heap w1)" and e: "ch_buf (heap w1 ! ch) = []"
      by simp_all
    have "subseq (received ch lg @ ch_buf (heap w2 ! ch)) (appended ops)"
      if x: "exec (w1, []) ops = Inr (w2, lg)" for ops w2 lg
      using exec_chan[OF i l x] e by (auto simp: received_def)
    then show ?thesis using i m e by blast
  qed
  from a b show ?thesis by blast
qed

lemma demo_world_eq:
  "demo_world = \<lparr>store = \<lparr>requests = [], maxSize = 10, subscribers = [0]\<rparr>,
                 heap = [\<lparr>ch_buf = [], ch_cap = 100, ch_closed = False\<rparr>]\<rparr>"
  by (simp add: demo_world_def Subscribe_def new_world_def NewStore_def Let_def)

lemma store_inv_demo_world: "store_inv demo_world"
  by (simp add: demo_world_eq store_inv_def)

theorem subscriber_delivery_witness:
  "(\<exists>w'. Add demo_world (sample_record 1) = Inr w' \<and> ch_buf (heap w' ! 0) = [sample_record 1]) \<and>
   subseq [sample_record 2] (appended [OpAdd (sample_record 2), OpRecv 1])"
proof -
  have s: "Subscribe demo_world = (1, snd (Subscribe demo_world))"
    by (simp add: demo_world_eq Subscribe_def Let_def)
  have x: "exec (snd (Subscribe demo_world), []) [OpAdd (sample_record 2), OpRecv 1]
           = Inr (\<lparr>store = \<lparr>requests = [sample_record 2], maxSize = 10, subscribers = [1, 0]\<rparr>,
                   heap = [\<lparr>ch_buf = [sample_record 2], ch_cap = 100, ch_closed = False\<rparr>,
                           \<lparr>ch_buf = [], ch_cap = 100, ch_closed = False\<rparr>]\<rparr>,
                  [(1, sample_record 2)])"
    by (simp add: demo_world_eq Subscribe_def Let_def Add_def trysend_def chan_recv_def)
  from subscriber_delivery[OF store_inv_demo_world, of "sample_record 1"] s x
  show ?thesis
    by (auto simp: demo_world_eq received_def)
qed

text \<open>
  Claim C10. \<open>Unsubscribe\<close> on a channel that is already closed panics with Go's
  "close of closed channel". A handle returned by \<open>Subscribe\<close> is registered; for a
  registered handle \<open>Unsubscribe\<close> returns, the channel goes from open to closed, the handle
  is deregistered and no other channel changes; a second \<open>Unsubscribe\<close> with the same handle
  panics, at once or after any further calls on the store, so no run without a panic
  closes the channel twice.
\<close>

theorem Unsubscribe_closes_once:
  assumes "store_inv w"
  shows "(ch < length (heap w) \<and> ch_closed (heap w ! ch) \<longrightarrow>
            Unsubscribe w ch = Inl CloseOfClosedChannel) \<and>
         (\<forall>c w0. Subscribe w = (c, w0) \<longrightarrow> store_inv w0 \<and> c \<in> set (subscribers (store w0))) \<and>
         (ch \<in> set (subscribers (store w)) \<longrightarrow>
            (\<exists>w1. Unsubscribe w ch = Inr w1 \<and> store_inv w1 \<and>
               \<not> ch_closed (heap w ! ch) \<and> ch_closed (heap w1 ! ch) \<and>
               ch \<notin> set (subscribers (store w1)) \<and>
               (\<forall>i. i \<noteq> ch \<longrightarrow> heap w1 ! i = heap w ! i) \<and>
               Unsubscribe w1 ch = Inl CloseOfClosedChannel \<and>
               (\<forall>ops lg s. exec (w1, lg) ops = Inr s \<longrightarrow> OpUnsubscribe ch \<notin> set ops)))"
proof -
  have a: "Unsubscribe w ch = Inl CloseOfClosedChannel"
    if "ch < length (heap w)" "ch_closed (heap w ! ch)"
    using that by (rule Unsubscribe_closed)
  have b: "store_inv w0 \<and> c \<in> set (subscribers (store w0))" if "Subscribe w = (c, w0)" for c w0
    using Subscribe_ok[OF assms that] by simp
  have c: "\<exists>w1. Unsubscribe w ch = Inr w1 \<and> store_inv w1 \<and>
               \<not> ch_closed (heap w ! ch) \<and> ch_closed (heap w1 ! ch) \<and>
               ch \<notin> set (subscribers (store w1)) \<and>
               (\<forall>i. i \<noteq> ch \<longrightarrow> heap w1 ! i = heap w ! i) \<and>
               Unsubscribe w1 ch = Inl CloseOfClosedChannel \<and>
               (\<forall>ops lg s. exec (w1, lg) ops = Inr s \<longrightarrow> OpUnsubscribe ch \<notin> set ops)"
    if m: "ch \<in> set (subscribers (store w))"
  proof -
    from assms m have o: "ch < length (heap w)" "\<not> ch_closed (heap w ! ch)"
      by (simp_all add: store_inv_def list_all_iff)
    from Unsubscribe_ok[OF assms o] obtain w1 where
      w1: "Unsubscribe w ch = Inr w1" "store_inv w1" "length (heap w1) = length (heap w)"
          "ch_closed (heap w1 ! ch)" "ch \<notin> set (subscribers (store w1))"
          "\<forall>i. i \<noteq> ch \<longrightarrow> heap w1 ! i = heap w ! i" by blast
    have l1: "ch < length (heap w1)" using o(1) w1(3) by simp
    have again: "Unsubscribe w1 ch = Inl CloseOfClosedChannel"
      using Unsubscribe_closed[OF l1 w1(4)] .
    have never: "OpUnsubscribe ch \<notin> set ops" if "exec (w1, lg) ops = Inr s" for ops lg s
      using exec_no_second_close[OF that l1 w1(4)] .
    show ?thesis using w1 o(2) again never by blast
  qed
  from a b c show ?thesis by blast
qed

theorem Unsubscribe_closes_once_witness:
  "store_inv demo_world \<and> 0 \<in> set (subscribers (store demo_world)) \<and>
   (\<exists>w1. Unsubscribe demo_world 0 = Inr w1 \<and> ch_closed (heap w1 ! 0) \<and>
      Unsubscribe w1 0 = Inl CloseOfClosedChannel)"
proof -
  have m: "0 \<in> set (subscribers (store demo_world))" by (simp add: demo_world_eq)
  from Unsubscribe_closes_once[OF store_inv_demo_world, of 0] m store_inv_demo_world
  show ?thesis by blast
qed

section \<open>Properties of header names and header maps\<close>

lemma of_char_to_lower:
  "(of_char (to_lower c) :: nat) = (if is_upper c then of_char c + 32 else of_char c)"
  by (simp add: to_lower_def is_upper_def)

lemma of_char_step:
  "(of_char (if u \<and> is_lower c then char_of (of_char c - 32 :: nat)
             else if \<not> u \<and> is_upper c then char_of (of_char c + 32 :: nat) else c) :: nat)
   = (if u \<and> is_lower c then of_char c - 32 else if \<not> u \<and> is_upper c then of_char c + 32 else of_char c)"
proof -
  have "(of_char c :: nat) < 256" by simp
  then show ?thesis by (auto simp: is_upper_def is_lower_def)
qed

lemma dash_iff: "(c = CHR ''-'') = ((of_char c :: nat) = 45)"
proof -
  have "(of_char (CHR ''-'') :: nat) = 45" by simp
  then show ?thesis by (metis of_char_eq_iff)
qed

lemma char_eq_code: "(c = d) = ((of_char c :: nat) = of_char d)"
  by simp

lemma step_to_lower:
  "(if u \<and> is_lower (to_lower c) then char_of (of_char (to_lower c) - 32 :: nat)
    else if \<not> u \<and> is_upper (to_lower c) then char_of (of_char (to_lower c) + 32 :: nat) else to_lower c)
   = (if u \<and> is_lower c then char_of (of_char c - 32 :: nat)
      else if \<not> u \<and> is_upper c then char_of (of_char c + 32 :: nat) else c)"
  apply (subst char_eq_code)
  apply (simp only: of_char_step)
  apply (auto simp: of_char_to_lower is_upper_def is_lower_def)
  done

lemma canonicalize_to_lower: "canonicalize u (map to_lower s) = canonicalize u s"
  by (induction s arbitrary: u) (simp_all add: step_to_lower Let_def del: of_char_eq_iff)

lemma to_lower_step:
  "to_lower (if u \<and> is_lower c then char_of (of_char c - 32 :: nat)
             else if \<not> u \<and> is_upper c then char_of (of_char c + 32 :: nat) else c) = to_lower c"
  apply (subst char_eq_code)
  apply (simp only: of_char_to_lower)
  apply (simp only: of_char_step)
  apply (auto simp: is_upper_def is_lower_def)
  done

lemma to_lower_canonicalize: "map to_lower (canonicalize u s) = map to_lower s"
  by (induction s arbitrary: u) (simp_all add: to_lower_step Let_def)

lemma valid_to_lower: "validHeaderFieldByte (to_lower c) = validHeaderFieldByte c"
  by (auto simp: validHeaderFieldByte_def is_upper_def is_lower_def is_digit_def of_char_to_lower)

lemma not_miscased_canonicalize:
  "list_all validHeaderFieldByte s \<Longrightarrow> \<not> miscased u s \<Longrightarrow> canonicalize u s = s"
  by (induction s arbitrary: u) (auto simp: Let_def split: if_splits)

lemma space_invalid: "\<not> validHeaderFieldByte (CHR '' '')"
  by (simp add: validHeaderFieldByte_def is_upper_def is_lower_def is_digit_def)

lemma canonicalMIMEHeaderKey_eq:
  "canonicalMIMEHeaderKey s = (if list_all validHeaderFieldByte s then canonicalize True s else s)"
proof (cases "list_all validHeaderFieldByte s")
  case True
  then have "\<not> list_ex (\<lambda>c. \<not> validHeaderFieldByte c \<and> c \<noteq> CHR '' '') s"
    and "\<not> list_ex (\<lambda>c. c = CHR '' '') s"
    using space_invalid by (auto simp: list_all_iff list_ex_iff)
  then show ?thesis using True by (simp add: canonicalMIMEHeaderKey_def)
next
  case False
  then obtain c where "c \<in> set s" "\<not> validHeaderFieldByte c" by (auto simp: list_all_iff)
  then have "list_ex (\<lambda>c. \<not> validHeaderFieldByte c \<and> c \<noteq> CHR '' '') s \<or> list_ex (\<lambda>c. c = CHR '' '') s"
    by (auto simp: list_ex_iff)
  then show ?thesis using False by (auto simp: canonicalMIMEHeaderKey_def)
qed

lemma CanonicalMIMEHeaderKey_eq:
  "CanonicalMIMEHeaderKey s = (if list_all validHeaderFieldByte s then canonicalize True s else s)"
  by (simp add: CanonicalMIMEHeaderKey_def canonicalMIMEHeaderKey_eq not_miscased_canonicalize)

lemma canonical_fold_unique:
  assumes "canonical_name h" "map to_lower (CanonicalMIMEHeaderKey k) = map to_lower h"
  shows "CanonicalMIMEHeaderKey k = h"
proof -
  have low: "map to_lower k = map to_lower h"
    using assms(2) by (simp add: CanonicalMIMEHeaderKey_eq to_lower_canonicalize split: if_splits)
  have "list_all validHeaderFieldByte (map to_lower k) = list_all validHeaderFieldByte k"
    by (simp add: list_all_iff valid_to_lower)
  moreover have "list_all validHeaderFieldByte (map to_lower h) = list_all validHeaderFieldByte h"
    by (simp add: list_all_iff valid_to_lower)
  ultimately have v: "list_all validHeaderFieldByte k" using low assms(1) by (simp add: canonical_name_def)
  have "canonicalize True k = canonicalize True (map to_lower k)" by (simp add: canonicalize_to_lower)
  also have "\<dots> = canonicalize True h" unfolding low by (simp add: canonicalize_to_lower)
  also have "\<dots> = h" using assms(1) by (simp add: canonical_name_def)
  finally show ?thesis using v by (simp add: CanonicalMIMEHeaderKey_eq)
qed

lemma hop_canonical: "list_all canonical_name hopByHopHeaders"
  unfolding hopByHopHeaders_def canonical_name_def by code_simp

lemma hop_canon_fixed: "h \<in> set hopByHopHeaders \<Longrightarrow> CanonicalMIMEHeaderKey h = h"
  using hop_canonical by (auto simp: list_all_iff canonical_name_def CanonicalMIMEHeaderKey_eq)

lemma keys_Header_Add: "header_keys (Header_Add h key val) = insert (CanonicalMIMEHeaderKey key) (header_keys h)"
  by (auto simp: header_keys_def Header_Add_def Let_def update_keys image_iff
           simp flip: set_map split: if_splits)

lemma keys_Header_Del: "header_keys (Header_Del h key) = header_keys h - {CanonicalMIMEHeaderKey key}"
  by (auto simp: header_keys_def Header_Del_def AList.delete_eq image_iff)

lemma keys_add_values:
  "header_keys (fold (\<lambda>val d'. Header_Add d' key val) vals d)
     \<subseteq> insert (CanonicalMIMEHeaderKey key) (header_keys d)"
proof (induction vals arbitrary: d)
  case Nil
  then show ?case by auto
next
  case (Cons a vals)
  from Cons.IH[of "Header_Add d key a"] show ?case by (auto simp: keys_Header_Add)
qed

lemma keys_copyHeaders:
  "header_keys (copyHeaders dst src) \<subseteq> header_keys dst \<union> CanonicalMIMEHeaderKey ` header_keys src"
  unfolding copyHeaders_def
proof (induction src arbitrary: dst)
  case Nil
  then show ?case by simp
next
  case (Cons e src)
  obtain key vals where e: "e = (key, vals)" by (cases e)
  let ?d = "fold (\<lambda>val d'. Header_Add d' key val) vals dst"
  have "header_keys ?d \<subseteq> insert (CanonicalMIMEHeaderKey key) (header_keys dst)"
    by (rule keys_add_values)
  with Cons.IH[of ?d] show ?case unfolding e by (auto simp: header_keys_def)
qed

lemma keys_del_all:
  "header_keys (fold (\<lambda>header h'. Header_Del h' header) hs h) = header_keys h - CanonicalMIMEHeaderKey ` set hs"
  by (induction hs arbitrary: h) (auto simp: keys_Header_Del)

lemma keys_removeHop: "header_keys (removeHopByHopHeaders h) = header_keys h - set hopByHopHeaders"
proof -
  have "CanonicalMIMEHeaderKey ` set hopByHopHeaders = set hopByHopHeaders"
    using hop_canon_fixed by (auto simp: image_iff)
  then show ?thesis by (simp add: removeHopByHopHeaders_def keys_del_all)
qed

lemma canonical_key_not_hop:
  assumes "k \<in> CanonicalMIMEHeaderKey ` A" "k \<notin> set hopByHopHeaders"
  shows "\<not> is_hop_by_hop k"
proof
  assume "is_hop_by_hop k"
  then obtain h where h: "h \<in> set hopByHopHeaders" "map to_lower k = map to_lower h"
    by (auto simp: is_hop_by_hop_def list_ex_iff)
  from assms(1) obtain k0 where k0: "k = CanonicalMIMEHeaderKey k0" by auto
  from h(1) hop_canonical have "canonical_name h" by (simp add: list_all_iff)
  from canonical_fold_unique[OF this] h(2) k0 have "k = h" by simp
  with h(1) assms(2) show False by simp
qed

lemma forwarded_headers_no_hop:
  "\<forall>k\<in>header_keys (removeHopByHopHeaders (copyHeaders [] src)). \<not> is_hop_by_hop k"
proof
  fix k assume k: "k \<in> header_keys (removeHopByHopHeaders (copyHeaders [] src))"
  then have "k \<in> header_keys (copyHeaders [] src)" "k \<notin> set hopByHopHeaders"
    by (simp_all add: keys_removeHop)
  moreover have "header_keys (copyHeaders [] src) \<subseteq> CanonicalMIMEHeaderKey ` header_keys src"
    using keys_copyHeaders[of "[]" src] by (simp add: header_keys_def)
  ultimately show "\<not> is_hop_by_hop k" using canonical_key_not_hop by blast
qed

lemma values_Header_Add:
  "Header_Values (Header_Add h key val) k =
     (if CanonicalMIMEHeaderKey key = k then Header_Values h k @ [val] else Header_Values h k)"
  by (simp add: Header_Values_def Header_Add_def Let_def update_conv')

lemma values_Header_Del:
  "Header_Values (Header_Del h key) k =
     (if CanonicalMIMEHeaderKey key = k then [] else Header_Values h k)"
  by (simp add: Header_Values_def Header_Del_def delete_conv')

lemma values_add_values:
  "Header_Values (fold (\<lambda>val d'. Header_Add d' key val) vals d) k =
     (if CanonicalMIMEHeaderKey key = k then Header_Values d k @ vals else Header_Values d k)"
  by (induction vals arbitrary: d) (auto simp: values_Header_Add)

lemma values_copyHeaders:
  "Header_Values (copyHeaders dst src) k =
     Header_Values dst k @ concat (map snd (filter (\<lambda>e. CanonicalMIMEHeaderKey (fst e) = k) src))"
  unfolding copyHeaders_def
proof (induction src arbitrary: dst)
  case Nil
  then show ?case by simp
next
  case (Cons e src)
  obtain key vals where e: "e = (key, vals)" by (cases e)
  show ?case unfolding e by (simp add: Cons.IH values_add_values)
qed

lemma values_removeHop:
  "k \<notin> set hopByHopHeaders \<Longrightarrow> Header_Values (removeHopByHopHeaders h) k = Header_Values h k"
proof -
  have "\<And>h. k \<notin> CanonicalMIMEHeaderKey ` set hs \<Longrightarrow>
          Header_Values (fold (\<lambda>header h'. Header_Del h' header) hs h) k = Header_Values h k" for hs
    by (induction hs) (auto simp: values_Header_Del)
  moreover assume "k \<notin> set hopByHopHeaders"
  moreover have "CanonicalMIMEHeaderKey ` set hopByHopHeaders = set hopByHopHeaders"
    using hop_canon_fixed by (auto simp: image_iff)
  ultimately show ?thesis by (simp add: removeHopByHopHeaders_def)
qed

lemma values_canonical_filter:
  assumes "canonical_header h"
  shows "concat (map snd (filter (\<lambda>e. CanonicalMIMEHeaderKey (fst e) = k) h)) = Header_Values h k"
  using assms
proof (induction h)
  case Nil
  then show ?case by (simp add: Header_Values_def)
next
  case (Cons e h)
  obtain key vals where e: "e = (key, vals)" by (cases e)
  from Cons.prems have c: "canonical_header h" "CanonicalMIMEHeaderKey key = key" "key \<notin> fst ` set h"
    by (auto simp: canonical_header_def e)
  show ?case
  proof (cases "key = k")
    case True
    with c have "filter (\<lambda>e. CanonicalMIMEHeaderKey (fst e) = k) h = []"
      by (auto simp: filter_empty_conv canonical_header_def list_all_iff)
    then show ?thesis using True c(2) by (simp add: e Header_Values_def)
  next
    case False
    then show ?thesis using Cons.IH[OF c(1)] c(2) by (simp add: e Header_Values_def)
  qed
qed

lemma values_empty: "Header_Values [] k = []"
  by (simp add: Header_Values_def)

lemma relayed_values:
  assumes "canonical_header src" "k \<notin> set hopByHopHeaders"
  shows "Header_Values (removeHopByHopHeaders (copyHeaders [] src)) k = Header_Values src k"
  using assms by (simp add: values_removeHop values_copyHeaders values_canonical_filter values_empty)

section \<open>Properties of the forwarding handler\<close>

lemma client_do_NewHandler:
  "client_do (httpClient (NewHandler m)) env (Suc fuel) [] q = Some (dispatch_once env q, [q])"
  by (simp add: NewHandler_def dispatch_once_def Let_def split: sum.splits)

lemma client_do_sent:
  "client_do c env fuel via q = Some (res, sent) \<Longrightarrow>
     \<forall>x\<in>set sent. x \<in> set via \<or> o_Header x = o_Header q"
proof (induction fuel arbitrary: via q)
  case 0
  then show ?case by simp
next
  case (Suc fuel)
  show ?case
  proof (cases "RoundTrip env q")
    case (Inl e)
    with Suc.prems show ?thesis by auto
  next
    case (Inr resp)
    let ?loc = "Header_Get (resp_Header resp) ''Location''"
    let ?next = "redirect_request env q resp ?loc"
    show ?thesis
    proof (cases "\<not> shouldRedirect (resp_StatusCode resp) \<or> ?loc = [] \<or>
                  Location_unparsable env (o_URL q) ?loc")
      case True
      with Suc.prems Inr show ?thesis by (auto simp: Let_def split: if_splits)
    next
      case False
      show ?thesis
      proof (cases "CheckRedirect c ?next (via @ [q])")
        case None
        with Suc.prems Inr False have "client_do c env fuel (via @ [q]) ?next = Some (res, sent)"
          by (simp add: Let_def)
        from Suc.IH[OF this] show ?thesis by (auto simp: redirect_request_def Let_def)
      next
        case (Some e)
        with Suc.prems Inr False show ?thesis by (cases e) (auto simp: Let_def)
      qed
    qed
  qed
qed

lemma client_do_prefix:
  "client_do c env fuel via q = Some (res, sent) \<Longrightarrow> \<exists>rest. sent = via @ q # rest"
proof (induction fuel arbitrary: via q)
  case 0
  then show ?case by simp
next
  case (Suc fuel)
  show ?case
  proof (cases "RoundTrip env q")
    case (Inl e)
    with Suc.prems show ?thesis by auto
  next
    case (Inr resp)
    let ?loc = "Header_Get (resp_Header resp) ''Location''"
    let ?next = "redirect_request env q resp ?loc"
    show ?thesis
    proof (cases "\<not> shouldRedirect (resp_StatusCode resp) \<or> ?loc = [] \<or>
                  Location_unparsable env (o_URL q) ?loc")
      case True
      with Suc.prems Inr show ?thesis by (auto simp: Let_def split: if_splits)
    next
      case False
      show ?thesis
      proof (cases "CheckRedirect c ?next (via @ [q])")
        case None
        with Suc.prems Inr False have "client_do c env fuel (via @ [q]) ?next = Some (res, sent)"
          by (simp add: Let_def)
        from Suc.IH[OF this] show ?thesis by auto
      next
        case (Some e)
        with Suc.prems Inr False show ?thesis by (cases e) (auto simp: Let_def)
      qed
    qed
  qed
qed

lemma handleHTTP_bad_request:
  assumes "NewRequest_fails env (r_Method r) (buildTargetURL (url_escapes env) r)"
  shows "handleHTTP env h fuel wd w r =
           Some (Inr \<lparr>s_world = wd, s_w = http_Error w ''Bad Request'' 400, s_stored = [],
                      s_sent = [], s_dialed = [], s_client_conn = None, s_relay_started = False,
                      s_target_closed = False, s_client_closed = False\<rparr>)"
  using assms by (simp add: handleHTTP_def Let_def)

lemma handleHTTP_bad_gateway:
  assumes "\<not> NewRequest_fails env (r_Method r) (buildTargetURL (url_escapes env) r)"
    "client_do (httpClient h) env fuel [] (outgoing_request env h r) = Some (Inl e, sent)"
  shows "handleHTTP env h fuel wd w r =
           Some (Inr \<lparr>s_world = wd, s_w = http_Error w ''Bad Gateway'' 502, s_stored = [],
                      s_sent = sent, s_dialed = [], s_client_conn = None,
                      s_relay_started = False, s_target_closed = False,
                      s_client_closed = False\<rparr>)"
  using assms by (simp add: handleHTTP_def Let_def)

lemma handleHTTP_success:
  assumes "\<not> NewRequest_fails env (r_Method r) (buildTargetURL (url_escapes env) r)"
    "client_do (httpClient h) env fuel [] (outgoing_request env h r) = Some (Inr resp, sent)"
    "Add wd (finished_record env h r resp) = Inr wd'"
  shows "handleHTTP env h fuel wd w r =
           Some (Inr \<lparr>s_world = wd', s_w = relayed_response h w resp,
                      s_stored = [finished_record env h r resp],
                      s_sent = sent, s_dialed = [], s_client_conn = None,
                      s_relay_started = False, s_target_closed = False,
                      s_client_closed = False\<rparr>)"
  using assms by (simp add: handleHTTP_def Let_def finished_record_def relayed_response_def)

lemma keys_Header_Set:
  "header_keys (Header_Set h key val) = insert (CanonicalMIMEHeaderKey key) (header_keys h)"
  by (auto simp: header_keys_def Header_Set_def update_keys image_iff
           simp flip: set_map split: if_splits)

lemma WriteHeader_header: "w_Header (WriteHeader w c) = w_Header w"
  by (simp add: WriteHeader_def)

lemma Write_header: "w_Header (Write w b) = w_Header w"
  by (simp add: Write_def Let_def WriteHeader_def)

lemma error_headers_not_hop:
  "\<not> is_hop_by_hop (CanonicalMIMEHeaderKey ''Content-Type'')"
  "\<not> is_hop_by_hop (CanonicalMIMEHeaderKey ''X-Content-Type-Options'')"
  unfolding is_hop_by_hop_def hopByHopHeaders_def by code_simp+

lemma http_Error_no_hop:
  assumes "\<forall>k\<in>header_keys (w_Header w). \<not> is_hop_by_hop k"
  shows "\<forall>k\<in>header_keys (w_Header (http_Error w msg code)). \<not> is_hop_by_hop k"
  using assms error_headers_not_hop
  by (auto simp: http_Error_def Let_def Write_header WriteHeader_header keys_Header_Set keys_Header_Del)

lemma copied_headers_no_hop:
  assumes "\<forall>k\<in>header_keys dst. \<not> is_hop_by_hop k"
  shows "\<forall>k\<in>header_keys (removeHopByHopHeaders (copyHeaders dst src)). \<not> is_hop_by_hop k"
proof
  fix k assume k: "k \<in> header_keys (removeHopByHopHeaders (copyHeaders dst src))"
  then have a: "k \<in> header_keys (copyHeaders dst src)" "k \<notin> set hopByHopHeaders"
    by (simp_all add: keys_removeHop)
  from a(1) keys_copyHeaders[of dst src]
  have "k \<in> header_keys dst \<or> k \<in> CanonicalMIMEHeaderKey ` header_keys src" by auto
  then show "\<not> is_hop_by_hop k"
    using assms a(2) canonical_key_not_hop by blast
qed

lemma relayed_response_no_hop:
  assumes "\<forall>k\<in>header_keys (w_Header w). \<not> is_hop_by_hop k"
  shows "\<forall>k\<in>header_keys (w_Header (relayed_response h w resp)). \<not> is_hop_by_hop k"
  using copied_headers_no_hop[OF assms]
  by (simp add: relayed_response_def Write_header WriteHeader_header)

lemma outgoing_no_hop: "\<forall>k\<in>header_keys (o_Header (outgoing_request env h r)). \<not> is_hop_by_hop k"
  using copied_headers_no_hop[of "[]"] by (simp add: outgoing_request_def header_keys_def)

lemma handleHTTP_cases:
  assumes "handleHTTP env h fuel wd w r = Some (Inr out)"
  shows "(s_sent out = [] \<and> s_w out = http_Error w ''Bad Request'' 400 \<and> s_stored out = [] \<and> s_world out = wd) \<or>
         (\<exists>e. client_do (httpClient h) env fuel [] (outgoing_request env h r) = Some (Inl e, s_sent out) \<and>
            s_w out = http_Error w ''Bad Gateway'' 502 \<and> s_stored out = [] \<and> s_world out = wd) \<or>
         (\<exists>resp. client_do (httpClient h) env fuel [] (outgoing_request env h r) = Some (Inr resp, s_sent out) \<and>
            s_w out = relayed_response h w resp \<and> s_stored out = [finished_record env h r resp] \<and>
            Add wd (finished_record env h r resp) = Inr (s_world out))"
proof (cases "NewRequest_fails env (r_Method r) (buildTargetURL (url_escapes env) r)")
  case True
  from handleHTTP_bad_request[OF True, where h=h and fuel=fuel and wd=wd and w=w] assms
  show ?thesis by auto
next
  case False
  show ?thesis
  proof (cases "client_do (httpClient h) env fuel [] (outgoing_request env h r)")
    case None
    with assms False show ?thesis by (simp add: handleHTTP_def Let_def)
  next
    case (Some p)
    obtain res sent where p: "p = (res, sent)" by (cases p)
    show ?thesis
    proof (cases res)
      case (Inl e)
      from handleHTTP_bad_gateway[OF False, where h=h and fuel=fuel and e=e and sent=sent and wd=wd and w=w]
        Some p Inl assms
      show ?thesis by auto
    next
      case (Inr resp)
      show ?thesis
      proof (cases "Add wd (finished_record env h r resp)")
        case (Inl pn)
        with assms False Some p Inr show ?thesis
          by (simp add: handleHTTP_def Let_def finished_record_def)
      next
        case a: (Inr wd')
        from handleHTTP_success[OF False _ a, where sent=sent and w=w and fuel=fuel] Some p Inr assms a
        show ?thesis by auto
      qed
    qed
  qed
qed

lemma ServeHTTP_http: "r_Method r \<noteq> ''CONNECT'' \<Longrightarrow> ServeHTTP env h fuel wd w r = handleHTTP env h fuel wd w r"
  by (simp add: ServeHTTP_def)

lemma ServeHTTP_connect: "r_Method r = ''CONNECT'' \<Longrightarrow> ServeHTTP env h fuel wd w r = handleConnect env h wd w r"
  by (simp add: ServeHTTP_def)

lemma http_Error_status: "w_Status w = None \<Longrightarrow> w_Status (http_Error w msg code) = Some code"
  by (simp add: http_Error_def Let_def Write_def WriteHeader_def)

lemma http_Error_body: "w_Body (http_Error w msg code) = w_Body w @ msg @ [CHR 0x0A]"
  by (simp add: http_Error_def Let_def Write_def WriteHeader_def)

text \<open>
  Claim C1. What the code does when the dispatch of a non-CONNECT request fails with a
  transport error: the client gets Bad Gateway (status 502 and the text "Bad Gateway"),
  one request was sent to the origin, and \<open>handleHTTP\<close> returns before it reaches
  \<open>Store.Add\<close>: no record is handed to the store, which is left as it was. The claim says
  that a finalized record is still stored, as \<open>handleConnect\<close> does on each of its failure
  paths.
\<close>

theorem transport_failure_not_recorded:
  assumes "r_Method r \<noteq> ''CONNECT''"
    and "\<not> NewRequest_fails env (r_Method r) (buildTargetURL (url_escapes env) r)"
    and "RoundTrip env (outgoing_request env (NewHandler m) r) = Inl e"
  shows "\<exists>out. ServeHTTP env (NewHandler m) (Suc fuel) wd w r = Some (Inr out) \<and>
           s_stored out = [] \<and> s_world out = wd \<and>
           s_sent out = [outgoing_request env (NewHandler m) r] \<and>
           (w_Status w = None \<longrightarrow> w_Status (s_w out) = Some 502) \<and>
           w_Body (s_w out) = w_Body w @ ''Bad Gateway'' @ [CHR 0x0A]"
proof -
  have c: "client_do (httpClient (NewHandler m)) env (Suc fuel) [] (outgoing_request env (NewHandler m) r)
           = Some (Inl e, [outgoing_request env (NewHandler m) r])"
    unfolding client_do_NewHandler using assms(3) by (simp add: dispatch_once_def)
  show ?thesis
    unfolding ServeHTTP_http[OF assms(1)] handleHTTP_bad_gateway[OF assms(2) c]
    by (simp add: http_Error_status http_Error_body)
qed

text \<open>
  The failing input of C1: a GET through a transport that fails. The client gets 502 and
  the store, empty before, is empty afterwards.
\<close>

theorem transport_failure_not_recorded_witness:
  "\<exists>out. ServeHTTP failing_env (NewHandler 1024) (Suc 0) (new_world 1000) demo_writer demo_request
            = Some (Inr out) \<and>
         w_Status (s_w out) = Some 502 \<and> Count (s_world out) = 0 \<and> s_stored out = []"
proof -
  have a: "r_Method demo_request \<noteq> ''CONNECT''" by (simp add: demo_request_def)
  have b: "\<not> NewRequest_fails failing_env (r_Method demo_request)
               (buildTargetURL (url_escapes failing_env) demo_request)"
    by (simp add: failing_env_def demo_env_def)
  have c: "RoundTrip failing_env (outgoing_request failing_env (NewHandler 1024) demo_request) = Inl ErrTransport"
    by (simp add: failing_env_def demo_env_def)
  have d: "w_Status demo_writer = None" by (simp add: demo_writer_def)
  have e: "Count (new_world 1000) = 0" by (simp add: Count_def new_world_def NewStore_def)
  from transport_failure_not_recorded[OF a b c, of 0 "new_world 1000" demo_writer] d e
  show ?thesis by auto
qed

text \<open>
  Claim C9. What the code does with the body of a non-CONNECT request. With a body
  present and a positive \<open>ContentLength\<close>, the captured body and the body of the outgoing
  request are the inbound bytes cut to \<open>maxRequestSize\<close>; with no body both are empty and
  nothing fails. But the body is read only under the guard \<open>r.ContentLength > 0\<close>: when the
  length is zero or unknown (\<open>-1\<close>, a chunked body) both are empty whatever bytes the body
  holds. The request sent first to the origin and every stored record carry these bodies.
\<close>

theorem request_body_read_only_with_positive_length:
  assumes "r_Method r \<noteq> ''CONNECT''"
  shows "(r_ContentLength r \<le> 0 \<longrightarrow>
            RequestBody (capture_request env h r) = [] \<and> o_Body (outgoing_request env h r) = []) \<and>
         (r_Body r = None \<longrightarrow>
            RequestBody (capture_request env h r) = [] \<and> o_Body (outgoing_request env h r) = []) \<and>
         (\<forall>b. r_Body r = Some b \<and> 0 < r_ContentLength r \<longrightarrow>
            RequestBody (capture_request env h r) = take (nat (maxRequestSize h)) b \<and>
            o_Body (outgoing_request env h r) = take (nat (maxRequestSize h)) b) \<and>
         (\<forall>fuel wd w out. ServeHTTP env h fuel wd w r = Some (Inr out) \<longrightarrow>
            (\<forall>q\<in>set (take 1 (s_sent out)). q = outgoing_request env h r) \<and>
            (\<forall>c\<in>set (s_stored out). RequestBody c = RequestBody (capture_request env h r)))"
proof -
  have 1: "RequestBody (capture_request env h r) = [] \<and> o_Body (outgoing_request env h r) = []"
    if "r_ContentLength r \<le> 0"
    using that
    by (auto simp: capture_request_def outgoing_request_def read_request_body_def
          NewCapturedRequest_def Let_def split: option.splits)
  have 2: "RequestBody (capture_request env h r) = [] \<and> o_Body (outgoing_request env h r) = []"
    if "r_Body r = None"
    using that
    by (auto simp: capture_request_def outgoing_request_def read_request_body_def
          NewCapturedRequest_def Let_def split: option.splits)
  have 3: "RequestBody (capture_request env h r) = take (nat (maxRequestSize h)) b \<and>
            o_Body (outgoing_request env h r) = take (nat (maxRequestSize h)) b"
    if "r_Body r = Some b \<and> 0 < r_ContentLength r" for b
    using that
    by (auto simp: capture_request_def outgoing_request_def read_request_body_def
          LimitReadAll_def Let_def)
  have 4: "(\<forall>q\<in>set (take 1 (s_sent out)). q = outgoing_request env h r) \<and>
            (\<forall>c\<in>set (s_stored out). RequestBody c = RequestBody (capture_request env h r))"
    if s: "ServeHTTP env h fuel wd w r = Some (Inr out)" for fuel wd w out
  proof -
    from s have hh: "handleHTTP env h fuel wd w r = Some (Inr out)"
      by (simp add: ServeHTTP_http[OF assms])
    have first: "take 1 sent = [q]" if "client_do (httpClient h) env fuel [] q = Some (res, sent)"
      for res sent q
      using client_do_prefix[OF that] by auto
    from handleHTTP_cases[OF hh] show ?thesis
      by (auto dest!: first simp: finished_record_def)
  qed
  from 1 2 3 4 show ?thesis by blast
qed

text \<open>
  The failing input of C9: a chunked POST with the body "hello" and a limit of 1024
  bytes. The truncated body would be "hello"; the captured and the forwarded body are empty.
\<close>

theorem request_body_read_only_with_positive_length_witness:
  "r_Method chunked_request \<noteq> ''CONNECT'' \<and> r_Body chunked_request = Some ''hello'' \<and>
   r_ContentLength chunked_request = - 1 \<and>
   take (nat (maxRequestSize (NewHandler 1024))) ''hello'' = ''hello'' \<and>
   RequestBody (capture_request demo_env (NewHandler 1024) chunked_request) = [] \<and>
   o_Body (outgoing_request demo_env (NewHandler 1024) chunked_request) = []"
proof -
  have a: "r_Method chunked_request \<noteq> ''CONNECT''" "r_Body chunked_request = Some ''hello''"
    "r_ContentLength chunked_request = - 1"
    by (simp_all add: chunked_request_def demo_request_def)
  have b: "take (nat (maxRequestSize (NewHandler 1024))) ''hello'' = ''hello''"
    by (simp add: NewHandler_def)
  from request_body_read_only_with_positive_length[OF a(1), of demo_env "NewHandler 1024"] a b
  show ?thesis by simp
qed

text \<open>
  Claim C3. For a non-CONNECT request served with a response writer that carries no
  hop-by-hop header yet (a new writer carries none), whatever the inbound headers, the
  origin's headers and the handler's client: no request sent to the origin and no response
  header map relayed to the client has a key that names Connection, Keep-Alive,
  Proxy-Authenticate, Proxy-Authorization, Te, Trailer, Transfer-Encoding or Upgrade in any
  spelling of case. With the handler of \<open>NewHandler\<close> on a reachable store the call returns.
  The statement is about the header maps the handler passes to the HTTP library.
\<close>

theorem hop_by_hop_headers_not_forwarded:
  assumes "r_Method r \<noteq> ''CONNECT''"
    and "\<forall>k\<in>header_keys (w_Header w). \<not> is_hop_by_hop k"
  shows "(\<forall>h fuel out. ServeHTTP env h fuel wd w r = Some (Inr out) \<longrightarrow>
            (\<forall>q\<in>set (s_sent out). \<forall>k\<in>header_keys (o_Header q). \<not> is_hop_by_hop k) \<and>
            (\<forall>k\<in>header_keys (w_Header (s_w out)). \<not> is_hop_by_hop k)) \<and>
         (store_inv wd \<longrightarrow>
            (\<exists>out. ServeHTTP env (NewHandler m) (Suc n) wd w r = Some (Inr out)))"
proof -
  have a: "(\<forall>q\<in>set (s_sent out). \<forall>k\<in>header_keys (o_Header q). \<not> is_hop_by_hop k) \<and>
            (\<forall>k\<in>header_keys (w_Header (s_w out)). \<not> is_hop_by_hop k)"
    if s: "ServeHTTP env h fuel wd w r = Some (Inr out)" for h fuel out
  proof -
    from s have hh: "handleHTTP env h fuel wd w r = Some (Inr out)"
      by (simp add: ServeHTTP_http[OF assms(1)])
    have sent: "\<forall>q\<in>set sent. \<forall>k\<in>header_keys (o_Header q). \<not> is_hop_by_hop k"
      if "client_do (httpClient h) env fuel [] (outgoing_request env h r) = Some (res, sent)"
      for res sent
      using client_do_sent[OF that] outgoing_no_hop[of env h r] by auto
    from handleHTTP_cases[OF hh] show ?thesis
    proof (elim disjE exE conjE)
      assume "s_sent out = []" "s_w out = http_Error w ''Bad Request'' 400"
      then show ?thesis using http_Error_no_hop[OF assms(2)] by simp
    next
      fix e assume "client_do (httpClient h) env fuel [] (outgoing_request env h r) = Some (Inl e, s_sent out)"
        "s_w out = http_Error w ''Bad Gateway'' 502"
      then show ?thesis using http_Error_no_hop[OF assms(2)] sent by simp
    next
      fix resp assume "client_do (httpClient h) env fuel [] (outgoing_request env h r) = Some (Inr resp, s_sent out)"
        "s_w out = relayed_response h w resp"
      then show ?thesis using relayed_response_no_hop[OF assms(2)] sent by simp
    qed
  qed
  have b: "\<exists>out. ServeHTTP env (NewHandler m) (Suc n) wd w r = Some (Inr out)" if i: "store_inv wd"
  proof (cases "NewRequest_fails env (r_Method r) (buildTargetURL (url_escapes env) r)")
    case True
    then show ?thesis by (simp add: ServeHTTP_http[OF assms(1)] handleHTTP_bad_request)
  next
    case False
    let ?q = "outgoing_request env (NewHandler m) r"
    have c: "client_do (httpClient (NewHandler m)) env (Suc n) [] ?q = Some (dispatch_once env ?q, [?q])"
      by (rule client_do_NewHandler)
    show ?thesis
    proof (cases "dispatch_once env ?q")
      case (Inl e)
      with c show ?thesis
        by (simp add: ServeHTTP_http[OF assms(1)] handleHTTP_bad_gateway[OF False])
    next
      case (Inr resp)
      from Add_ok[OF i, of "finished_record env (NewHandler m) r resp"] obtain wd'
        where "Add wd (finished_record env (NewHandler m) r resp) = Inr wd'" by blast
      from handleHTTP_success[OF False _ this, where sent="[?q]" and fuel="Suc n" and w=w] c Inr
      show ?thesis by (simp add: ServeHTTP_http[OF assms(1)])
    qed
  qed
  from a b show ?thesis by blast
qed

lemma demo_outgoing_headers:
  "removeHopByHopHeaders (copyHeaders [] [(''X-Test'', [''v'']), (''Connection'', [''keep-alive'']), (''upgrade'', [''h2c''])])
     = [(''X-Test'', [''v''])]"
  by code_simp

lemma demo_relayed_headers:
  "removeHopByHopHeaders (copyHeaders [] [(''Location'', [''http://example.test/b'']), (''Keep-Alive'', [''timeout=5''])])
     = [(''Location'', [''http://example.test/b''])]"
  by code_simp

lemma ServeHTTP_NewHandler_success:
  assumes "r_Method r \<noteq> ''CONNECT''"
    and "\<not> NewRequest_fails env (r_Method r) (buildTargetURL (url_escapes env) r)"
    and "dispatch_once env (outgoing_request env (NewHandler m) r) = Inr resp"
    and "Add wd (finished_record env (NewHandler m) r resp) = Inr wd'"
  shows "ServeHTTP env (NewHandler m) (Suc n) wd w r =
           Some (Inr \<lparr>s_world = wd', s_w = relayed_response (NewHandler m) w resp,
                      s_stored = [finished_record env (NewHandler m) r resp],
                      s_sent = [outgoing_request env (NewHandler m) r], s_dialed = [],
                      s_client_conn = None, s_relay_started = False, s_target_closed = False,
                      s_client_closed = False\<rparr>)"
proof -
  have c: "client_do (httpClient (NewHandler m)) env (Suc n) [] (outgoing_request env (NewHandler m) r)
           = Some (Inr resp, [outgoing_request env (NewHandler m) r])"
    unfolding client_do_NewHandler using assms(3) by simp
  show ?thesis
    unfolding ServeHTTP_http[OF assms(1)] by (rule handleHTTP_success[OF assms(2) c assms(4)])
qed

lemma ServeHTTP_NewHandler_failure:
  assumes "r_Method r \<noteq> ''CONNECT''"
    and "\<not> NewRequest_fails env (r_Method r) (buildTargetURL (url_escapes env) r)"
    and "dispatch_once env (outgoing_request env (NewHandler m) r) = Inl e"
  shows "ServeHTTP env (NewHandler m) (Suc n) wd w r =
           Some (Inr \<lparr>s_world = wd, s_w = http_Error w ''Bad Gateway'' 502, s_stored = [],
                      s_sent = [outgoing_request env (NewHandler m) r], s_dialed = [],
                      s_client_conn = None, s_relay_started = False, s_target_closed = False,
                      s_client_closed = False\<rparr>)"
proof -
  have c: "client_do (httpClient (NewHandler m)) env (Suc n) [] (outgoing_request env (NewHandler m) r)
           = Some (Inl e, [outgoing_request env (NewHandler m) r])"
    unfolding client_do_NewHandler using assms(3) by simp
  show ?thesis
    unfolding ServeHTTP_http[OF assms(1)] by (rule handleHTTP_bad_gateway[OF assms(2) c])
qed

text \<open>
  An instance: Connection and upgrade are dropped from the request, Keep-Alive from the
  response; X-Test and Location pass.
\<close>

theorem hop_by_hop_headers_not_forwarded_witness:
  "\<exists>out. ServeHTTP demo_env (NewHandler 1024) (Suc 0) (new_world 1000) demo_writer demo_request
            = Some (Inr out) \<and>
         map o_Header (s_sent out) = [[(''X-Test'', [''v''])]] \<and>
         w_Header (s_w out) = [(''Location'', [''http://example.test/b''])] \<and>
         list_all (\<lambda>q. \<not> list_ex is_hop_by_hop (map fst (o_Header q))) (s_sent out) \<and>
         \<not> list_ex is_hop_by_hop (map fst (w_Header (s_w out)))"
proof -
  have a: "r_Method demo_request \<noteq> ''CONNECT''" by (simp add: demo_request_def)
  have b: "\<forall>k\<in>header_keys (w_Header demo_writer). \<not> is_hop_by_hop k"
    by (simp add: demo_writer_def header_keys_def)
  have nf: "\<not> NewRequest_fails demo_env (r_Method demo_request)
               (buildTargetURL (url_escapes demo_env) demo_request)"
    by (simp add: demo_env_def)
  have rt: "dispatch_once demo_env (outgoing_request demo_env (NewHandler 1024) demo_request) = Inr demo_response"
    by (simp add: dispatch_once_def demo_env_def)
  from Add_ok[OF store_inv_new_world, of 1000 "finished_record demo_env (NewHandler 1024) demo_request demo_response"]
  obtain wd' where add: "Add (new_world 1000) (finished_record demo_env (NewHandler 1024) demo_request demo_response) = Inr wd'"
    by blast
  note s = ServeHTTP_NewHandler_success[OF a nf rt add, of 0 demo_writer]
  have q: "o_Header (outgoing_request demo_env (NewHandler 1024) demo_request) = [(''X-Test'', [''v''])]"
    by (simp add: outgoing_request_def demo_request_def demo_outgoing_headers)
  have w: "w_Header (relayed_response (NewHandler 1024) demo_writer demo_response) = [(''Location'', [''http://example.test/b''])]"
    by (simp add: relayed_response_def Write_header WriteHeader_header demo_writer_def demo_response_def
          demo_relayed_headers)
  from hop_by_hop_headers_not_forwarded[OF a b, of demo_env "new_world 1000" 1024 0] s
  have "list_all (\<lambda>q. \<not> list_ex is_hop_by_hop (map fst (o_Header q)))
          [outgoing_request demo_env (NewHandler 1024) demo_request]"
    "\<not> list_ex is_hop_by_hop (map fst (w_Header (relayed_response (NewHandler 1024) demo_writer demo_response)))"
    by (auto simp: list_all_iff list_ex_iff header_keys_def)
  with s q w show ?thesis by simp
qed

lemma WriteHeader_fresh: "w_Status w = None \<Longrightarrow> w_Status (WriteHeader w c) = Some c"
  by (simp add: WriteHeader_def)

lemma relayed_response_status:
  "w_Status w = None \<Longrightarrow> w_Status (relayed_response h w resp) = Some (resp_StatusCode resp)"
  by (simp add: relayed_response_def Write_def WriteHeader_def Let_def)

lemma relayed_response_body:
  "w_Body (relayed_response h w resp) = w_Body w @ take (nat (maxRequestSize h)) (resp_Body resp)"
  by (simp add: relayed_response_def Write_def WriteHeader_def Let_def LimitReadAll_def)

lemma Location_not_hop: "''Location'' \<notin> set hopByHopHeaders"
  by (simp add: hopByHopHeaders_def)

text \<open>
  Claim C4. With the client that \<open>NewHandler\<close> configures, when the origin answers a
  forwarded request with a redirect status, the handler returns having sent exactly one
  request to the origin: the redirect is never followed. When the response has no Location
  or one that parses as a URL, the client gets, on a new response writer, the origin's
  status code and the values of Location exactly as the origin sent them, and the stored
  record has that status code (the origin's header map is as Go's client parses it, with
  canonical keys). When the Location does not parse, the library's \<open>Do\<close> fails before it
  consults \<open>CheckRedirect\<close>, and the handler answers Bad Gateway and stores nothing: that
  redirect is not relayed, although the claim and the comment in \<open>NewHandler\<close> (redirects
  are to be captured and forwarded as they are) cover it.
\<close>

theorem redirect_relayed_unless_location_unparsable:
  assumes "r_Method r \<noteq> ''CONNECT''"
    and "store_inv wd"
    and "\<not> NewRequest_fails env (r_Method r) (buildTargetURL (url_escapes env) r)"
    and "RoundTrip env (outgoing_request env (NewHandler m) r) = Inr resp"
    and "shouldRedirect (resp_StatusCode resp)"
    and "canonical_header (resp_Header resp)"
    and "w_Header w = []" and "w_Status w = None"
  shows "\<exists>out. ServeHTTP env (NewHandler m) (Suc n) wd w r = Some (Inr out) \<and>
           s_sent out = [outgoing_request env (NewHandler m) r] \<and>
           (if Header_Get (resp_Header resp) ''Location'' \<noteq> [] \<and>
               Location_unparsable env (o_URL (outgoing_request env (NewHandler m) r))
                 (Header_Get (resp_Header resp) ''Location'')
            then w_Status (s_w out) = Some 502 \<and> s_stored out = [] \<and> s_world out = wd
            else w_Status (s_w out) = Some (resp_StatusCode resp) \<and>
                 Header_Values (w_Header (s_w out)) ''Location''
                   = Header_Values (resp_Header resp) ''Location'' \<and>
                 map StatusCode (s_stored out) = [resp_StatusCode resp])"
proof (cases "Header_Get (resp_Header resp) ''Location'' \<noteq> [] \<and>
               Location_unparsable env (o_URL (outgoing_request env (NewHandler m) r))
                 (Header_Get (resp_Header resp) ''Location'')")
  case True
  then have d: "dispatch_once env (outgoing_request env (NewHandler m) r) = Inl ErrLocation"
    using assms(4,5) by (simp add: dispatch_once_def)
  show ?thesis
    unfolding ServeHTTP_NewHandler_failure[OF assms(1,3) d] using True
    by (simp add: http_Error_status[OF assms(8)])
next
  case False
  then have d: "dispatch_once env (outgoing_request env (NewHandler m) r) = Inr resp"
    using assms(4) by (auto simp: dispatch_once_def)
  from Add_ok[OF assms(2), of "finished_record env (NewHandler m) r resp"] obtain wd'
    where add: "Add wd (finished_record env (NewHandler m) r resp) = Inr wd'" by blast
  note s = ServeHTTP_NewHandler_success[OF assms(1,3) d add, of n w]
  have loc: "Header_Values (w_Header (relayed_response (NewHandler m) w resp)) ''Location''
             = Header_Values (resp_Header resp) ''Location''"
    using relayed_values[OF assms(6) Location_not_hop] assms(7)
    by (simp add: relayed_response_def Write_header WriteHeader_header)
  show ?thesis
    unfolding s using False loc relayed_response_status[OF assms(8)]
    by (simp add: finished_record_def)
qed

lemma demo_response_canonical: "canonical_header (resp_Header demo_response)"
  unfolding canonical_header_def demo_response_def by code_simp

lemma bad_location_canonical: "canonical_header (resp_Header bad_location_response)"
  unfolding canonical_header_def bad_location_response_def by code_simp

lemma Location_canonical: "CanonicalMIMEHeaderKey ''Location'' = ''Location''"
  by code_simp

text \<open>
  Two instances: a 302 with a well-formed Location is relayed as 302 with that Location
  after one request; a 302 whose Location has an invalid percent escape reaches the client
  as 502 and is not stored.
\<close>

theorem redirect_relayed_unless_location_unparsable_witness:
  "(\<exists>out. ServeHTTP demo_env (NewHandler 1024) (Suc 0) (new_world 1000) demo_writer demo_request
            = Some (Inr out) \<and>
          w_Status (s_w out) = Some 302 \<and>
          Header_Values (w_Header (s_w out)) ''Location'' = [''http://example.test/b''] \<and>
          length (s_sent out) = 1) \<and>
   (\<exists>out. ServeHTTP bad_location_env (NewHandler 1024) (Suc 0) (new_world 1000) demo_writer demo_request
            = Some (Inr out) \<and>
          w_Status (s_w out) = Some 502 \<and> s_stored out = [] \<and> length (s_sent out) = 1)"
proof -
  have a: "r_Method demo_request \<noteq> ''CONNECT''" by (simp add: demo_request_def)
  have w: "w_Header demo_writer = []" "w_Status demo_writer = None" by (simp_all add: demo_writer_def)
  have nf: "\<not> NewRequest_fails demo_env (r_Method demo_request)
               (buildTargetURL (url_escapes demo_env) demo_request)"
    by (simp add: demo_env_def)
  have rt: "RoundTrip demo_env (outgoing_request demo_env (NewHandler 1024) demo_request) = Inr demo_response"
    by (simp add: demo_env_def)
  have sr: "shouldRedirect (resp_StatusCode demo_response)"
    by (simp add: shouldRedirect_def demo_response_def)
  have v: "Header_Values (resp_Header demo_response) ''Location'' = [''http://example.test/b'']"
    "resp_StatusCode demo_response = 302"
    "\<not> Location_unparsable demo_env x y" for x y
    by (simp_all add: Header_Values_def demo_response_def demo_env_def)
  from redirect_relayed_unless_location_unparsable[OF a store_inv_new_world[of 1000] nf rt sr
      demo_response_canonical w, of 0]
  have 1: "\<exists>out. ServeHTTP demo_env (NewHandler 1024) (Suc 0) (new_world 1000) demo_writer demo_request
            = Some (Inr out) \<and>
          w_Status (s_w out) = Some 302 \<and>
          Header_Values (w_Header (s_w out)) ''Location'' = [''http://example.test/b''] \<and>
          length (s_sent out) = 1"
    using v by auto
  have nf': "\<not> NewRequest_fails bad_location_env (r_Method demo_request)
               (buildTargetURL (url_escapes bad_location_env) demo_request)"
    by (simp add: bad_location_env_def demo_env_def)
  have rt': "RoundTrip bad_location_env (outgoing_request bad_location_env (NewHandler 1024) demo_request)
             = Inr bad_location_response"
    by (simp add: bad_location_env_def demo_env_def)
  have sr': "shouldRedirect (resp_StatusCode bad_location_response)"
    by (simp add: shouldRedirect_def bad_location_response_def)
  have g: "Header_Get (resp_Header bad_location_response) ''Location'' = ''http://example.test/%zz''"
    by (simp add: Header_Get_def Location_canonical Header_Values_def bad_location_response_def)
  have u: "Location_unparsable bad_location_env x ''http://example.test/%zz''" for x
    by (simp add: bad_location_env_def demo_env_def)
  from redirect_relayed_unless_location_unparsable[OF a store_inv_new_world[of 1000] nf' rt' sr'
      bad_location_canonical w, of 0]
  have 2: "\<exists>out. ServeHTTP bad_location_env (NewHandler 1024) (Suc 0) (new_world 1000) demo_writer demo_request
            = Some (Inr out) \<and>
          w_Status (s_w out) = Some 502 \<and> s_stored out = [] \<and> length (s_sent out) = 1"
    unfolding g using u by auto
  from 1 2 show ?thesis by blast
qed

lemma URL_String_plain:
  assumes "u_Scheme u \<noteq> []" "u_Opaque u = []" "u_User u = None" "\<not> u_OmitHost u"
    "\<not> u_ForceQuery u" "u_Fragment u = []"
  shows "URL_String lib u =
           u_Scheme u @ '':''
           @ (if u_Host u \<noteq> [] \<or> u_Path u \<noteq> [] then ''//'' else [])
           @ (if u_Host u \<noteq> [] then escape_host lib (u_Host u) else [])
           @ (if EscapedPath lib u \<noteq> [] \<and> hd (EscapedPath lib u) \<noteq> CHR ''/'' \<and> u_Host u \<noteq> []
              then ''/'' else [])
           @ EscapedPath lib u
           @ (if u_RawQuery u \<noteq> [] then ''?'' @ u_RawQuery u else [])"
proof -
  have a: "url_authority lib u =
             (if u_Host u \<noteq> [] \<or> u_Path u \<noteq> [] then ''//'' else [])
             @ (if u_Host u \<noteq> [] then escape_host lib (u_Host u) else [])"
    using assms(1,3,4) by (simp add: url_authority_def)
  have ne: "u_Scheme u @ '':'' @ x \<noteq> []" for x by simp
  show ?thesis
    unfolding URL_String_def Let_def a using assms(1,2,5,6) by simp
qed

lemma synthesized_fields:
  "u_Scheme (synthesized_url r) = (if r_TLS r then ''https'' else ''http'')"
  "u_Opaque (synthesized_url r) = []" "u_User (synthesized_url r) = None"
  "\<not> u_OmitHost (synthesized_url r)" "\<not> u_ForceQuery (synthesized_url r)"
  "u_Fragment (synthesized_url r) = []" "u_Host (synthesized_url r) = r_Host r"
  "u_Path (synthesized_url r) = u_Path (r_URL r)"
  "u_RawQuery (synthesized_url r) = u_RawQuery (r_URL r)"
  by (simp_all add: synthesized_url_def Let_def)

lemma synthesized_scheme_ne: "u_Scheme (synthesized_url r) \<noteq> []"
  by (simp add: synthesized_fields)

lemma synthesized_string:
  "URL_String lib (synthesized_url r) =
     (if r_TLS r then ''https'' else ''http'') @ '':''
     @ (if r_Host r \<noteq> [] \<or> u_Path (r_URL r) \<noteq> [] then ''//'' else [])
     @ (if r_Host r \<noteq> [] then escape_host lib (r_Host r) else [])
     @ (if EscapedPath lib (synthesized_url r) \<noteq> [] \<and>
           hd (EscapedPath lib (synthesized_url r)) \<noteq> CHR ''/'' \<and> r_Host r \<noteq> []
        then ''/'' else [])
     @ EscapedPath lib (synthesized_url r)
     @ (if u_RawQuery (r_URL r) \<noteq> [] then ''?'' @ u_RawQuery (r_URL r) else [])"
  using URL_String_plain[of "synthesized_url r" lib, OF synthesized_scheme_ne synthesized_fields(2-6)]
  by (simp only: synthesized_fields)

text \<open>
  Claim C5. When the URL of the request is absolute, the target is that URL as
  \<open>URL.String\<close> renders it, and neither the Host header nor the encryption of the inbound
  connection has any influence on it. Otherwise the target is the scheme, a colon, two
  slashes, the host of the Host header, the path and, when there is a query, a question mark
  and the query (host and path percent-encoded by the library, a slash inserted before a
  path that lacks one), where the scheme is \<open>https\<close> exactly when the inbound connection is
  encrypted and \<open>http\<close> exactly when it is not. The stored record and the outgoing request
  both carry this target.
\<close>

theorem target_url_resolution:
  "(IsAbs (r_URL r) \<longrightarrow>
      buildTargetURL lib r = URL_String lib (r_URL r) \<and>
      buildTargetURL lib (r\<lparr>r_Host := host', r_TLS := tls'\<rparr>) = buildTargetURL lib r) \<and>
   (\<not> IsAbs (r_URL r) \<longrightarrow>
      buildTargetURL lib r =
        (if r_TLS r then ''https'' else ''http'') @ '':''
        @ (if r_Host r \<noteq> [] \<or> u_Path (r_URL r) \<noteq> [] then ''//'' else [])
        @ (if r_Host r \<noteq> [] then escape_host lib (r_Host r) else [])
        @ (if EscapedPath lib (synthesized_url r) \<noteq> [] \<and>
              hd (EscapedPath lib (synthesized_url r)) \<noteq> CHR ''/'' \<and> r_Host r \<noteq> []
           then ''/'' else [])
        @ EscapedPath lib (synthesized_url r)
        @ (if u_RawQuery (r_URL r) \<noteq> [] then ''?'' @ u_RawQuery (r_URL r) else []) \<and>
      (prefix ''https:'' (buildTargetURL lib r) \<longleftrightarrow> r_TLS r) \<and>
      (prefix ''http:'' (buildTargetURL lib r) \<longleftrightarrow> \<not> r_TLS r)) \<and>
   URL (capture_request env h r) = buildTargetURL (url_escapes env) r \<and>
   o_URL (outgoing_request env h r) = buildTargetURL (url_escapes env) r"
proof -
  have abs: "buildTargetURL lib r = URL_String lib (r_URL r) \<and>
      buildTargetURL lib (r\<lparr>r_Host := host', r_TLS := tls'\<rparr>) = buildTargetURL lib r"
    if "IsAbs (r_URL r)"
    using that by (simp add: buildTargetURL_def)
  have b: "buildTargetURL lib r = URL_String lib (synthesized_url r)" if "\<not> IsAbs (r_URL r)"
    using that by (simp add: buildTargetURL_def)
  have p: "prefix ''https:'' (URL_String lib (synthesized_url r)) = r_TLS r"
    "prefix ''http:'' (URL_String lib (synthesized_url r)) = (\<not> r_TLS r)"
    unfolding synthesized_string by (cases "r_TLS r"; simp)+
  have cap: "URL (capture_request env h r) = buildTargetURL (url_escapes env) r"
    by (simp add: capture_request_def Let_def)
  have out: "o_URL (outgoing_request env h r) = buildTargetURL (url_escapes env) r"
    by (simp add: outgoing_request_def)
  show ?thesis
  proof (intro conjI impI)
    assume "IsAbs (r_URL r)"
    then show "buildTargetURL lib r = URL_String lib (r_URL r)"
      "buildTargetURL lib (r\<lparr>r_Host := host', r_TLS := tls'\<rparr>) = buildTargetURL lib r"
      using abs by simp_all
  next
    assume n: "\<not> IsAbs (r_URL r)"
    show "buildTargetURL lib r =
        (if r_TLS r then ''https'' else ''http'') @ '':''
        @ (if r_Host r \<noteq> [] \<or> u_Path (r_URL r) \<noteq> [] then ''//'' else [])
        @ (if r_Host r \<noteq> [] then escape_host lib (r_Host r) else [])
        @ (if EscapedPath lib (synthesized_url r) \<noteq> [] \<and>
              hd (EscapedPath lib (synthesized_url r)) \<noteq> CHR ''/'' \<and> r_Host r \<noteq> []
           then ''/'' else [])
        @ EscapedPath lib (synthesized_url r)
        @ (if u_RawQuery (r_URL r) \<noteq> [] then ''?'' @ u_RawQuery (r_URL r) else [])"
      unfolding b[OF n] by (rule synthesized_string)
    show "prefix ''https:'' (buildTargetURL lib r) \<longleftrightarrow> r_TLS r"
      unfolding b[OF n] by (rule p(1))
    show "prefix ''http:'' (buildTargetURL lib r) \<longleftrightarrow> \<not> r_TLS r"
      unfolding b[OF n] by (rule p(2))
  next
    show "URL (capture_request env h r) = buildTargetURL (url_escapes env) r" by (rule cap)
    show "o_URL (outgoing_request env h r) = buildTargetURL (url_escapes env) r" by (rule out)
  qed
qed

text \<open>
  Two instances: an absolute URL used as it is, and a relative one on an encrypted
  connection, which gets the scheme https.
\<close>

theorem target_url_resolution_witness:
  "IsAbs (r_URL demo_request) \<and> \<not> IsAbs (r_URL relative_request) \<and>
   buildTargetURL demo_lib demo_request = ''http://example.test/a?b=1'' \<and>
   buildTargetURL demo_lib relative_request = ''https://example.test/a?b=1''"
proof -
  have a: "IsAbs (r_URL demo_request)" by (simp add: IsAbs_def demo_request_def demo_url_def)
  have b: "\<not> IsAbs (r_URL relative_request)"
    by (simp add: IsAbs_def relative_request_def demo_request_def demo_url_def)
  have s: "URL_String demo_lib (r_URL demo_request) = ''http://example.test/a?b=1''"
    by (simp add: URL_String_def url_authority_def demo_request_def demo_url_def demo_lib_def Let_def)
  have f: "r_TLS relative_request" "r_Host relative_request = ''example.test''"
    "u_Path (r_URL relative_request) = ''/a''" "u_RawQuery (r_URL relative_request) = ''b=1''"
    "EscapedPath demo_lib (synthesized_url relative_request) = ''/a''"
    "escape_host demo_lib ''example.test'' = ''example.test''"
    by (simp_all add: relative_request_def demo_request_def demo_url_def demo_lib_def
          synthesized_url_def Let_def)
  from target_url_resolution[where r=demo_request and lib=demo_lib] a s
  have 1: "buildTargetURL demo_lib demo_request = ''http://example.test/a?b=1''" by simp
  from target_url_resolution[where r=relative_request and lib=demo_lib] b
  have "buildTargetURL demo_lib relative_request =
        (if r_TLS relative_request then ''https'' else ''http'') @ '':''
        @ (if r_Host relative_request \<noteq> [] \<or> u_Path (r_URL relative_request) \<noteq> [] then ''//'' else [])
        @ (if r_Host relative_request \<noteq> [] then escape_host demo_lib (r_Host relative_request) else [])
        @ (if EscapedPath demo_lib (synthesized_url relative_request) \<noteq> [] \<and>
              hd (EscapedPath demo_lib (synthesized_url relative_request)) \<noteq> CHR ''/'' \<and> r_Host relative_request \<noteq> []
           then ''/'' else [])
        @ EscapedPath demo_lib (synthesized_url relative_request)
        @ (if u_RawQuery (r_URL relative_request) \<noteq> [] then ''?'' @ u_RawQuery (r_URL relative_request) else [])"
    by blast
  then have 2: "buildTargetURL demo_lib relative_request = ''https://example.test/a?b=1''"
    using f by simp
  from a b 1 2 show ?thesis by simp
qed

section \<open>Properties of the tunnel handler\<close>

lemma store_tunnel_ok:
  assumes "store_inv wd"
  shows "\<exists>wd'. Add wd captured = Inr wd' \<and>
           store_tunnel wd captured w host conn relay tclosed cclosed =
             Inr \<lparr>s_world = wd', s_w = w, s_stored = [captured], s_sent = [], s_dialed = [host],
                  s_client_conn = conn, s_relay_started = relay, s_target_closed = tclosed,
                  s_client_closed = cclosed\<rparr>"
  using Add_ok[OF assms, of captured] by (auto simp: store_tunnel_def)

lemma handleConnect_established:
  assumes "\<not> DialTimeout_fails env (dial_address env r)" "w_Hijacker w" "\<not> Hijack_fails env"
    "\<not> conn_Write_fails env"
  shows "handleConnect env h wd w r =
           (case relay_done env of
              None \<Rightarrow> None
            | Some ending \<Rightarrow>
                Some (store_tunnel wd (tunnel_record env r 200) w (dial_address env r)
                        (Some connection_established) True True True))"
  using assms by (simp add: handleConnect_def Let_def tunnel_record_def split: option.splits)

lemma handleConnect_dial_failed:
  assumes "DialTimeout_fails env (dial_address env r)"
  shows "handleConnect env h wd w r =
           Some (store_tunnel wd (tunnel_record env r 502) (http_Error w ''Bad Gateway'' 502)
                   (dial_address env r) None False False False)"
  using assms by (simp add: handleConnect_def Let_def tunnel_record_def)

text \<open>
  Claim C6. For a CONNECT request whose dial, hijack and acknowledgement succeed: as
  soon as one relay direction finishes, whichever it is and whether or not its copy
  failed, the handler returns; it has written the line "HTTP/1.1 200 Connection Established"
  to the client, both connections are closed, and exactly one record has been handed to
  \<open>Store.Add\<close>, with status code 200 and the final duration, marked as an encrypted tunnel.
  While neither direction finishes the handler does not return.
\<close>

theorem established_tunnel_recorded_as_success:
  assumes "r_Method r = ''CONNECT''"
    and "store_inv wd"
    and "\<not> DialTimeout_fails env (dial_address env r)"
    and "w_Hijacker w" and "\<not> Hijack_fails env" and "\<not> conn_Write_fails env"
  shows "(relay_done env = None \<longrightarrow> ServeHTTP env h fuel wd w r = None) \<and>
         (\<forall>ending. relay_done env = Some ending \<longrightarrow>
            (\<exists>out rec. ServeHTTP env h fuel wd w r = Some (Inr out) \<and>
               s_stored out = [rec] \<and> Add wd rec = Inr (s_world out) \<and>
               StatusCode rec = 200 \<and> Duration rec = time_Since env \<and>
               IsTunnel rec \<and> IsHTTPS rec \<and>
               s_client_conn out = Some connection_established \<and> s_relay_started out \<and>
               s_target_closed out \<and> s_client_closed out \<and> s_w out = w))"
proof -
  note e = handleConnect_established[OF assms(3-6), of h wd]
  have a: "ServeHTTP env h fuel wd w r = None" if "relay_done env = None"
    using that by (simp add: ServeHTTP_connect[OF assms(1)] e)
  have b: "\<exists>out rec. ServeHTTP env h fuel wd w r = Some (Inr out) \<and>
               s_stored out = [rec] \<and> Add wd rec = Inr (s_world out) \<and>
               StatusCode rec = 200 \<and> Duration rec = time_Since env \<and>
               IsTunnel rec \<and> IsHTTPS rec \<and>
               s_client_conn out = Some connection_established \<and> s_relay_started out \<and>
               s_target_closed out \<and> s_client_closed out \<and> s_w out = w"
    if "relay_done env = Some ending" for ending
  proof -
    from store_tunnel_ok[OF assms(2), of "tunnel_record env r 200" w "dial_address env r"
        "Some connection_established" True True True]
    obtain wd' where
      t: "Add wd (tunnel_record env r 200) = Inr wd'"
         "store_tunnel wd (tunnel_record env r 200) w (dial_address env r)
             (Some connection_established) True True True =
          Inr \<lparr>s_world = wd', s_w = w, s_stored = [tunnel_record env r 200], s_sent = [],
               s_dialed = [dial_address env r], s_client_conn = Some connection_established,
               s_relay_started = True, s_target_closed = True, s_client_closed = True\<rparr>"
      by blast
    have f: "StatusCode (tunnel_record env r 200) = 200"
      "Duration (tunnel_record env r 200) = time_Since env"
      "IsTunnel (tunnel_record env r 200)" "IsHTTPS (tunnel_record env r 200)"
      by (simp_all add: tunnel_record_def)
    have "ServeHTTP env h fuel wd w r =
            Some (Inr \<lparr>s_world = wd', s_w = w, s_stored = [tunnel_record env r 200], s_sent = [],
               s_dialed = [dial_address env r], s_client_conn = Some connection_established,
               s_relay_started = True, s_target_closed = True, s_client_closed = True\<rparr>)"
      using that t(2) by (simp add: ServeHTTP_connect[OF assms(1)] e)
    then show ?thesis using t(1) f by simp
  qed
  from a b show ?thesis by blast
qed

text \<open>
  An instance: the client-to-target copy ends first, with an error; the record still
  says 200.
\<close>

theorem established_tunnel_recorded_as_success_witness:
  "relay_done demo_env = Some (ClientToTargetDone True) \<and>
   (\<exists>out rec. ServeHTTP demo_env (NewHandler 1024) 0 (new_world 1000) demo_writer connect_request
                 = Some (Inr out) \<and>
      s_stored out = [rec] \<and> StatusCode rec = 200 \<and> Duration rec = 7 \<and>
      s_client_conn out = Some connection_established)"
proof -
  have a: "r_Method connect_request = ''CONNECT''" by (simp add: connect_request_def)
  have b: "\<not> DialTimeout_fails demo_env (dial_address demo_env connect_request)"
    "\<not> Hijack_fails demo_env" "\<not> conn_Write_fails demo_env"
    "relay_done demo_env = Some (ClientToTargetDone True)" "time_Since demo_env = 7"
    by (simp_all add: demo_env_def)
  have c: "w_Hijacker demo_writer" by (simp add: demo_writer_def)
  from established_tunnel_recorded_as_success[OF a store_inv_new_world[of 1000] b(1) c b(2,3),
      where h="NewHandler 1024" and fuel=0] b(4,5)
  show ?thesis by fastforce
qed

text \<open>
  Claim C7. For a CONNECT request whose dial fails, the handler returns with exactly one
  record handed to \<open>Store.Add\<close>, with status code 502; the client gets Bad Gateway through
  the response writer, the connection is not hijacked, no acknowledgement is written and
  no relay is started.
\<close>

theorem unreachable_connect_recorded_as_bad_gateway:
  assumes "r_Method r = ''CONNECT''"
    and "store_inv wd"
    and "DialTimeout_fails env (dial_address env r)"
  shows "\<exists>out rec. ServeHTTP env h fuel wd w r = Some (Inr out) \<and>
           s_stored out = [rec] \<and> Add wd rec = Inr (s_world out) \<and>
           StatusCode rec = 502 \<and> IsTunnel rec \<and>
           s_dialed out = [dial_address env r] \<and>
           s_client_conn out = None \<and> \<not> s_relay_started out \<and>
           (w_Status w = None \<longrightarrow> w_Status (s_w out) = Some 502) \<and>
           w_Body (s_w out) = w_Body w @ ''Bad Gateway'' @ [CHR 0x0A]"
proof -
  from store_tunnel_ok[OF assms(2), of "tunnel_record env r 502" "http_Error w ''Bad Gateway'' 502"
      "dial_address env r" None False False False]
  obtain wd' where
    t: "Add wd (tunnel_record env r 502) = Inr wd'"
       "store_tunnel wd (tunnel_record env r 502) (http_Error w ''Bad Gateway'' 502)
           (dial_address env r) None False False False =
        Inr \<lparr>s_world = wd', s_w = http_Error w ''Bad Gateway'' 502,
             s_stored = [tunnel_record env r 502], s_sent = [],
             s_dialed = [dial_address env r], s_client_conn = None,
             s_relay_started = False, s_target_closed = False, s_client_closed = False\<rparr>"
    by blast
  have f: "StatusCode (tunnel_record env r 502) = 502" "IsTunnel (tunnel_record env r 502)"
    by (simp_all add: tunnel_record_def)
  have "ServeHTTP env h fuel wd w r =
          Some (Inr \<lparr>s_world = wd', s_w = http_Error w ''Bad Gateway'' 502,
             s_stored = [tunnel_record env r 502], s_sent = [],
             s_dialed = [dial_address env r], s_client_conn = None,
             s_relay_started = False, s_target_closed = False, s_client_closed = False\<rparr>)"
    using t(2) by (simp add: ServeHTTP_connect[OF assms(1)] handleConnect_dial_failed[OF assms(3)])
  then show ?thesis using t(1) f by (simp add: http_Error_status http_Error_body)
qed

text \<open>
  An instance: example.test:443 cannot be reached; one record with 502 is in the store.
\<close>

theorem unreachable_connect_recorded_as_bad_gateway_witness:
  "\<exists>out rec. ServeHTTP unreachable_env (NewHandler 1024) 0 (new_world 1000) demo_writer connect_request
                = Some (Inr out) \<and>
      s_stored out = [rec] \<and> StatusCode rec = 502 \<and> Count (s_world out) = 1 \<and>
      s_dialed out = [''example.test:443''] \<and>
      w_Status (s_w out) = Some 502 \<and> s_client_conn out = None"
proof -
  have a: "r_Method connect_request = ''CONNECT''" by (simp add: connect_request_def)
  have d: "dial_address unreachable_env connect_request = ''example.test:443''"
    by (simp add: dial_address_def unreachable_env_def demo_env_def connect_request_def)
  have b: "DialTimeout_fails unreachable_env (dial_address unreachable_env connect_request)"
    by (simp add: unreachable_env_def demo_env_def)
  have c: "w_Status demo_writer = None" by (simp add: demo_writer_def)
  have n: "Count wd' = 1" if "Add (new_world 1000) rec = Inr wd'" for rec wd'
    using that by (auto simp: Add_def Count_def new_world_def NewStore_def Let_def split: if_splits)
  from unreachable_connect_recorded_as_bad_gateway[OF a store_inv_new_world[of 1000] b,
      where h="NewHandler 1024" and fuel=0 and w=demo_writer] c d n
  show ?thesis by fastforce
qed

end
